theory Spec2Isabelle
  imports Complex_Main "HOL-Library.Word" "HOL-Library.Extended_Nat" "HOL-Library.Finite_Map"
    "HOL-Library.Multiset"
begin

section \<open>Strings and regular expressions of the parser\<close>

text \<open>
  A JavaScript string is a sequence of 16-bit code units. The regular expressions of
  \<^verbatim>\<open>parseQuestions\<close> carry no \<^verbatim>\<open>u\<close> flag, so they match code unit by code unit.
\<close>

type_synonym jschar = "16 word"
type_synonym jsstring = "jschar list"

definition str :: "string \<Rightarrow> jsstring" where
  "str s = map of_char s"

text \<open>
  The class \<^verbatim>\<open>\s\<close> and the characters removed by \<^verbatim>\<open>trim()\<close> are the same set:
  WhiteSpace (TAB, VT, FF, SP, NBSP, ZWNBSP and the category Zs) and LineTerminator
  (LF, CR, LS, PS).
\<close>

definition isWhiteSpace :: "jschar \<Rightarrow> bool" where
  "isWhiteSpace c \<longleftrightarrow>
     c = 0x09 \<or> c = 0x0A \<or> c = 0x0B \<or> c = 0x0C \<or> c = 0x0D \<or> c = 0x20 \<or> c = 0xA0 \<or>
     c = 0x1680 \<or> (0x2000 \<le> c \<and> c \<le> 0x200A) \<or> c = 0x2028 \<or> c = 0x2029 \<or>
     c = 0x202F \<or> c = 0x205F \<or> c = 0x3000 \<or> c = 0xFEFF"

definition isDigit :: "jschar \<Rightarrow> bool" where
  "isDigit c \<longleftrightarrow> 0x30 \<le> c \<and> c \<le> 0x39"

definition isLF :: "jschar \<Rightarrow> bool" where
  "isLF c \<longleftrightarrow> c = 0x0A"

definition isCR :: "jschar \<Rightarrow> bool" where
  "isCR c \<longleftrightarrow> c = 0x0D"

definition isUnderscore :: "jschar \<Rightarrow> bool" where
  "isUnderscore c \<longleftrightarrow> c = 0x5F"

definition isPeriod :: "jschar \<Rightarrow> bool" where
  "isPeriod c \<longleftrightarrow> c = 0x2E"

definition isAsterisk :: "jschar \<Rightarrow> bool" where
  "isAsterisk c \<longleftrightarrow> c = 0x2A"

definition trim :: "jsstring \<Rightarrow> jsstring" where
  "trim s = rev (dropWhile isWhiteSpace (rev (dropWhile isWhiteSpace s)))"

text \<open>
  Every regular expression of the parser is a sequence of character classes, each under a
  greedy quantifier: \<open>Item P lo hi\<close> is the class \<open>P\<close> repeated at least \<open>lo\<close> and at
  most \<open>hi\<close> times (\<open>None\<close>: unbounded). The matcher is the backtracking one of the
  language: an item first takes the longest run it can, and gives characters back one at
  a time while the rest of the pattern fails. A match is reported as the number of code
  units each item took.
\<close>

datatype item = Item "jschar \<Rightarrow> bool" nat "nat option"

fun greedy :: "(jsstring \<Rightarrow> nat list option) \<Rightarrow> nat \<Rightarrow> nat \<Rightarrow> jsstring \<Rightarrow> nat list option" where
  "greedy cont lo k s =
     (if k < lo then None
      else case cont (drop k s) of
             Some ns \<Rightarrow> Some (k # ns)
           | None \<Rightarrow> (if k = 0 then None else greedy cont lo (k - 1) s))"

primrec matchItems :: "item list \<Rightarrow> jsstring \<Rightarrow> nat list option" where
  "matchItems [] = (\<lambda>s. Some [])"
| "matchItems (it # its) = (\<lambda>s.
     case it of Item P lo hi \<Rightarrow>
       let run = length (takeWhile P s);
           k = (case hi of None \<Rightarrow> run | Some h \<Rightarrow> min h run)
       in greedy (matchItems its) lo k s)"

definition once :: "(jschar \<Rightarrow> bool) \<Rightarrow> item" where
  "once P = Item P 1 (Some 1)"

definition optional :: "(jschar \<Rightarrow> bool) \<Rightarrow> item" where
  "optional P = Item P 0 (Some 1)"

definition many :: "(jschar \<Rightarrow> bool) \<Rightarrow> item" where
  "many P = Item P 0 None"

definition many1 :: "(jschar \<Rightarrow> bool) \<Rightarrow> item" where
  "many1 P = Item P 1 None"

definition manyFrom :: "nat \<Rightarrow> (jschar \<Rightarrow> bool) \<Rightarrow> item" where
  "manyFrom n P = Item P n None"

text \<open>\<^verbatim>\<open>/\n\s*_{35,}\s*\n/g\<close>\<close>

definition separatorRe :: "item list" where
  "separatorRe = [once isLF, many isWhiteSpace, manyFrom 35 isUnderscore, many isWhiteSpace, once isLF]"

text \<open>\<^verbatim>\<open>/\r?\n/\<close>\<close>

definition newlineRe :: "item list" where
  "newlineRe = [optional isCR, once isLF]"

text \<open>\<^verbatim>\<open>/^\d+\s*\./\<close> and \<^verbatim>\<open>/^(\d+)\s*\./\<close>: the group is the first item.\<close>

definition questionRe :: "item list" where
  "questionRe = [many1 isDigit, many isWhiteSpace, once isPeriod]"

text \<open>\<^verbatim>\<open>/^(\d+)\s*\.?\s*/\<close>\<close>

definition prefixRe :: "item list" where
  "prefixRe = [many1 isDigit, many isWhiteSpace, optional isPeriod, many isWhiteSpace]"

text \<open>\<^verbatim>\<open>/^\*\s*/\<close>\<close>

definition markerRe :: "item list" where
  "markerRe = [once isAsterisk, many isWhiteSpace]"

text \<open>
  \<^verbatim>\<open>re.test(s)\<close> and \<^verbatim>\<open>s.replace(re, '')\<close> for a pattern anchored with \<^verbatim>\<open>^\<close> and
  without the \<^verbatim>\<open>g\<close> flag: the only match position is the start of the string.
\<close>

definition testRe :: "item list \<Rightarrow> jsstring \<Rightarrow> bool" where
  "testRe re s = (matchItems re s \<noteq> None)"

definition replaceEmpty :: "item list \<Rightarrow> jsstring \<Rightarrow> jsstring" where
  "replaceEmpty re s = (case matchItems re s of None \<Rightarrow> s | Some ns \<Rightarrow> drop (sum_list ns) s)"

text \<open>
  \<^verbatim>\<open>s.split(re)\<close> for a pattern without groups: \<open>acc\<close> holds, reversed, the code units
  between the end \<open>p\<close> of the last separator and the position \<open>q\<close> under test; the third
  argument is the string from \<open>q\<close> on. A match that ends at \<open>p\<close> is skipped.
\<close>

function splitFrom :: "item list \<Rightarrow> jsstring \<Rightarrow> jsstring \<Rightarrow> jsstring list" where
  "splitFrom re acc [] = [rev acc]"
| "splitFrom re acc (c # cs) =
     (case matchItems re (c # cs) of
        None \<Rightarrow> splitFrom re (c # acc) cs
      | Some ns \<Rightarrow>
          (if sum_list ns = 0 \<and> acc = [] then splitFrom re [c] cs
           else rev acc # splitFrom re [] (drop (sum_list ns) (c # cs))))"
  by pat_completeness auto
termination
  by (relation "measure (\<lambda>(re, acc, s). 2 * length s + (if acc = [] then 0 else 1))")
     (auto dest: member_le_sum_list)

definition splitRe :: "item list \<Rightarrow> jsstring \<Rightarrow> jsstring list" where
  "splitRe re s = (if s = [] then (if testRe re [] then [] else [[]]) else splitFrom re [] s)"

section \<open>Questions\<close>

text \<open>
  The fields \<^verbatim>\<open>id\<close> and \<^verbatim>\<open>text\<close> of an option are \<open>id_opt\<close> and \<open>text_opt\<close>, those
  of a question \<open>id_q\<close> and \<open>text_q\<close>. The id of a question is the number that
  \<^verbatim>\<open>Number\<close> yields: a natural number or \<open>\<infinity>\<close>.
\<close>

record AnswerOption =
  id_opt :: nat
  text_opt :: jsstring
  isCorrect :: bool

record Question =
  id_q :: enat
  text_q :: jsstring
  options :: "AnswerOption list"

text \<open>
  \<^verbatim>\<open>Number(idMatch[1])\<close> on a string of decimal digits: the double nearest to the decimal
  value, ties to the even significand, and \<open>Infinity\<close> when the rounded value reaches
  \<open>2 ^ 1024\<close>. \<open>bitlen n\<close> is the number of binary digits of \<open>n\<close>; a double keeps the
  leading 53 of them.
\<close>

fun bitlen :: "nat \<Rightarrow> nat" where
  "bitlen n = (if n = 0 then 0 else Suc (bitlen (n div 2)))"

definition roundToDouble :: "nat \<Rightarrow> enat" where
  "roundToDouble n =
     (if bitlen n \<le> 53 then enat n
      else let e = bitlen n - 53;
               q = n div 2 ^ e;
               r = n mod 2 ^ e;
               half = 2 ^ (e - 1);
               m = (if half < r \<or> (r = half \<and> odd q) then q + 1 else q)
           in if 1024 < bitlen (m * 2 ^ e) then \<infinity> else enat (m * 2 ^ e))"

definition decimalValue :: "jsstring \<Rightarrow> nat" where
  "decimalValue ds = foldl (\<lambda>n c. 10 * n + (unat c - 48)) 0 ds"

definition Number :: "jsstring \<Rightarrow> enat" where
  "Number ds = roundToDouble (decimalValue ds)"

section \<open>parseQuestions\<close>

text \<open>The \<^verbatim>\<open>while\<close> loop that looks for the question line.\<close>

function scanQuestionLine :: "jsstring list \<Rightarrow> nat \<Rightarrow> nat" where
  "scanQuestionLine lines questionLineIndex =
     (if questionLineIndex < min 3 (length lines) \<and> \<not> testRe questionRe (lines ! questionLineIndex)
      then scanQuestionLine lines (questionLineIndex + 1)
      else questionLineIndex)"
  by pat_completeness auto
termination
  by (relation "measure (\<lambda>(lines, i). 3 - i)") auto

definition makeOption :: "nat \<Rightarrow> jsstring \<Rightarrow> AnswerOption" where
  "makeOption idx line =
     \<lparr>id_opt = idx, text_opt = replaceEmpty markerRe line, isCorrect = testRe markerRe line\<rparr>"

text \<open>
  The body of the loop over the blocks: \<open>None\<close> is \<^verbatim>\<open>continue\<close>. A match of
  \<open>questionRe\<close> lists three lengths, the first of them for the group \<^verbatim>\<open>(\d+)\<close>.
\<close>

definition parseBlock :: "jsstring \<Rightarrow> Question option" where
  "parseBlock block =
     (let lines = filter (\<lambda>l. 0 < length l) (map trim (splitRe newlineRe block)) in
      if length lines < 4 then None
      else
        let questionLineIndex = scanQuestionLine lines 0 in
        if length lines \<le> questionLineIndex then None
        else
          let questionLine = lines ! questionLineIndex in
          case matchItems questionRe questionLine of
            None \<Rightarrow> None
          | Some [] \<Rightarrow> None
          | Some (n # _) \<Rightarrow>
              let qid = Number (take n questionLine);
                  qtext = trim (replaceEmpty prefixRe questionLine);
                  optionLines =
                    take 3 (filter (\<lambda>l. 0 < length l) (drop (questionLineIndex + 1) lines))
              in if length optionLines \<noteq> 3 then None
                 else Some \<lparr>id_q = qid, text_q = qtext,
                            options = map (\<lambda>(idx, line). makeOption idx line)
                                          (List.enumerate 0 optionLines)\<rparr>)"

definition blocksOf :: "jsstring \<Rightarrow> jsstring list" where
  "blocksOf raw = filter (\<lambda>b. 0 < length b) (map trim (splitRe separatorRe raw))"

fun collectQuestions :: "jsstring list \<Rightarrow> Question list" where
  "collectQuestions [] = []"
| "collectQuestions (block # blocks) =
     (case parseBlock block of
        None \<Rightarrow> collectQuestions blocks
      | Some q \<Rightarrow> q # collectQuestions blocks)"

text \<open>The array \<^verbatim>\<open>questions\<close> before the second loop.\<close>

definition questionsOf :: "jsstring \<Rightarrow> Question list" where
  "questionsOf raw = collectQuestions (blocksOf raw)"

fun dedupe :: "enat set \<Rightarrow> Question list \<Rightarrow> Question list" where
  "dedupe seen [] = []"
| "dedupe seen (q # qs) =
     (if id_q q \<in> seen then dedupe seen qs else q # dedupe (insert (id_q q) seen) qs)"

definition parseQuestions :: "jsstring \<Rightarrow> Question list" where
  "parseQuestions raw = dedupe {} (questionsOf raw)"

section \<open>Session state\<close>

text \<open>
  The counters are JavaScript numbers that only ever start at 0 and grow by 1; they are
  modelled as natural numbers. A progress record built by spreading a missing record has
  no \<^verbatim>\<open>questionId\<close> property: \<open>None\<close>. The object \<^verbatim>\<open>questionStates\<close> is a finite map
  from ids to records.
\<close>

record SessionQuestionState =
  questionId :: "enat option"
  consecutiveCorrect :: nat
  isExcluded :: bool

record SessionState =
  questionStates :: "(enat, SessionQuestionState) fmap"
  currentQuestionId :: "enat option"

record StatsState =
  totalAnswers :: nat
  correctAnswers :: nat

text \<open>
  \<^verbatim>\<open>Math.random()\<close> returns a number \<open>r\<close> with \<open>0 \<le> r < 1\<close>, and
  \<^verbatim>\<open>Math.floor(Math.random() * n)\<close> is \<open>randomIndex r n\<close>. The product is taken exactly
  here; the rounded product of two doubles has the same bounds \<open>0 \<le> _ < n\<close>.
\<close>

typedef randomNumber = "{r :: real. 0 \<le> r \<and> r < 1}"
  by (intro exI [of _ 0]) simp

definition randomIndex :: "randomNumber \<Rightarrow> nat \<Rightarrow> nat" where
  "randomIndex r n = nat \<lfloor>Rep_randomNumber r * real n\<rfloor>"

text \<open>
  The state of the component \<^verbatim>\<open>App\<close> once the questions are loaded: the bank, the two
  persisted states, the selection of the current presentation, and the random draws that
  the memo \<^verbatim>\<open>displayedOptions\<close> took when the current question last changed
  (\<open>shuffleDraws s i\<close> is the draw at loop index \<open>i\<close>).
\<close>

record App =
  allQuestions :: "Question list"
  session :: SessionState
  stats :: StatsState
  selectedIdx :: "int option"
  hasAnswered :: bool
  shuffleDraws :: "nat \<Rightarrow> randomNumber"

definition progress :: "App \<Rightarrow> enat \<Rightarrow> SessionQuestionState option" where
  "progress s k = fmlookup (questionStates (session s)) k"

text \<open>The effect that creates the missing progress records when the questions arrive.\<close>

definition initializeQuestionStates :: "Question list \<Rightarrow> SessionState \<Rightarrow> SessionState" where
  "initializeQuestionStates qs prev =
     (if length qs = 0 then prev
      else prev\<lparr>questionStates :=
        foldl (\<lambda>updated q.
                 if fmlookup updated (id_q q) = None
                 then fmupd (id_q q)
                        \<lparr>questionId = Some (id_q q), consecutiveCorrect = 0, isExcluded = False\<rparr>
                        updated
                 else updated)
              (questionStates prev) qs\<rparr>)"

definition activeCount :: "App \<Rightarrow> nat" where
  "activeCount s =
     fcard (ffilter (\<lambda>k. case progress s k of None \<Rightarrow> False | Some qs \<Rightarrow> \<not> isExcluded qs)
                    (fmdom (questionStates (session s))))"

definition isFinished :: "App \<Rightarrow> bool" where
  "isFinished s \<longleftrightarrow> activeCount s = 0"

definition currentQuestion :: "App \<Rightarrow> Question option" where
  "currentQuestion s =
     find (\<lambda>q. Some (id_q q) = currentQuestionId (session s)) (allQuestions s)"

text \<open>The Fisher-Yates loop of \<^verbatim>\<open>displayedOptions\<close>, from index \<open>length - 1\<close> down to 1.\<close>

fun shuffleFrom :: "(nat \<Rightarrow> randomNumber) \<Rightarrow> nat \<Rightarrow> 'a list \<Rightarrow> 'a list" where
  "shuffleFrom draws 0 xs = xs"
| "shuffleFrom draws (Suc i) xs =
     (let j = randomIndex (draws (Suc i)) (Suc i + 1)
      in shuffleFrom draws i (xs[Suc i := xs ! j, j := xs ! Suc i]))"

definition shuffle :: "(nat \<Rightarrow> randomNumber) \<Rightarrow> 'a list \<Rightarrow> 'a list" where
  "shuffle draws xs = shuffleFrom draws (length xs - 1) xs"

definition displayedOptions :: "App \<Rightarrow> AnswerOption list" where
  "displayedOptions s =
     (case currentQuestion s of
        None \<Rightarrow> []
      | Some q \<Rightarrow> shuffle (shuffleDraws s) (options q))"

text \<open>\<^verbatim>\<open>xs[i]\<close> for a number \<open>i\<close>: \<^verbatim>\<open>undefined\<close> outside the array.\<close>

definition elementAt :: "'a list \<Rightarrow> int \<Rightarrow> 'a option" where
  "elementAt xs i = (if 0 \<le> i \<and> i < int (length xs) then Some (xs ! nat i) else None)"

text \<open>
  \<^verbatim>\<open>states[q.id]?.isExcluded\<close>: \<^verbatim>\<open>undefined\<close>, which is falsy, when the id has no
  record.
\<close>

definition excluded :: "(enat, SessionQuestionState) fmap \<Rightarrow> Question \<Rightarrow> bool" where
  "excluded states q =
     (case fmlookup states (id_q q) of None \<Rightarrow> False | Some qs \<Rightarrow> isExcluded qs)"

definition candidates :: "Question list \<Rightarrow> (enat, SessionQuestionState) fmap \<Rightarrow> Question list" where
  "candidates questions states = filter (\<lambda>q. \<not> excluded states q) questions"

definition pickNextQuestionId ::
  "Question list \<Rightarrow> (enat, SessionQuestionState) fmap \<Rightarrow> randomNumber \<Rightarrow> enat option" where
  "pickNextQuestionId questions states rnd =
     (if length (candidates questions states) = 0 then None
      else Some (id_q (candidates questions states !
                         randomIndex rnd (length (candidates questions states)))))"

text \<open>
  The render that follows an update from \<open>old\<close> to \<open>new\<close>: the memo is recomputed, with
  fresh draws, when the id of the current question has changed, and the effect on
  \<^verbatim>\<open>session.currentQuestionId\<close> clears the selection when that id has changed.
\<close>

definition rerender :: "App \<Rightarrow> (nat \<Rightarrow> randomNumber) \<Rightarrow> App \<Rightarrow> App" where
  "rerender old draws new =
     (let new1 = (if map_option id_q (currentQuestion new) = map_option id_q (currentQuestion old)
                  then new else new\<lparr>shuffleDraws := draws\<rparr>)
      in if currentQuestionId (session new) = currentQuestionId (session old) then new1
         else new1\<lparr>selectedIdx := None, hasAnswered := False\<rparr>)"

datatype error = TypeError

text \<open>\<^verbatim>\<open>displayedOptions[idx]?.isCorrect === true\<close>\<close>

definition chosenIsCorrect :: "int \<Rightarrow> App \<Rightarrow> bool" where
  "chosenIsCorrect idx s =
     (case elementAt (displayedOptions s) idx of None \<Rightarrow> False | Some option \<Rightarrow> isCorrect option)"

text \<open>
  \<^verbatim>\<open>handleAnswer\<close>. Reading \<^verbatim>\<open>qs.consecutiveCorrect\<close> of a missing record throws; the
  spread of a missing record is the empty object. The notice and the timer that follow an
  exclusion belong to the presentation; when the timer fires it runs the updater of
  \<^verbatim>\<open>handleNext\<close>.
\<close>

definition handleAnswer :: "int \<Rightarrow> App \<Rightarrow> error + App" where
  "handleAnswer idx s =
     (if hasAnswered s then Inr s
      else case currentQuestion s of
        None \<Rightarrow> Inr s
      | Some q \<Rightarrow>
          let correct = chosenIsCorrect idx s;
              stats' = \<lparr>totalAnswers = totalAnswers (stats s) + 1,
                        correctAnswers = correctAnswers (stats s) + (if correct then 1 else 0)\<rparr>;
              prev = session s
          in (case fmlookup (questionStates prev) (id_q q) of
               None \<Rightarrow>
                 if correct then Inl TypeError
                 else Inr (s\<lparr>selectedIdx := Some idx, hasAnswered := True, stats := stats',
                             session := prev\<lparr>questionStates :=
                               fmupd (id_q q)
                                 \<lparr>questionId = None, consecutiveCorrect = 0, isExcluded = False\<rparr>
                                 (questionStates prev)\<rparr>\<rparr>)
             | Some qs \<Rightarrow>
                 let nextQs = qs\<lparr>consecutiveCorrect :=
                                   (if correct then consecutiveCorrect qs + 1 else 0),
                                 isExcluded := False\<rparr>;
                     nextQs' = (if correct \<and> 5 \<le> consecutiveCorrect nextQs
                                then nextQs\<lparr>isExcluded := True\<rparr> else nextQs)
                 in Inr (s\<lparr>selectedIdx := Some idx, hasAnswered := True, stats := stats',
                            session := prev\<lparr>questionStates :=
                              fmupd (id_q q) nextQs' (questionStates prev)\<rparr>\<rparr>)))"

text \<open>
  The updater shared by \<^verbatim>\<open>handleNext\<close>, the start button and the new-test button, with
  the render that follows.
\<close>

definition advance :: "randomNumber \<Rightarrow> (nat \<Rightarrow> randomNumber) \<Rightarrow> App \<Rightarrow> App" where
  "advance rnd draws s =
     rerender s draws
       (s\<lparr>session := (session s)\<lparr>currentQuestionId :=
            pickNextQuestionId (allQuestions s) (questionStates (session s)) rnd\<rparr>\<rparr>)"

definition handleNext :: "randomNumber \<Rightarrow> (nat \<Rightarrow> randomNumber) \<Rightarrow> App \<Rightarrow> App" where
  "handleNext rnd draws s = (if currentQuestion s = None then s else advance rnd draws s)"

text \<open>The \<^verbatim>\<open>onClick\<close> of the start button (and of the new-test button): no guard.\<close>

definition startTest :: "randomNumber \<Rightarrow> (nat \<Rightarrow> randomNumber) \<Rightarrow> App \<Rightarrow> App" where
  "startTest rnd draws s = advance rnd draws s"

text \<open>
  The two buttons are rendered in the branch \<^verbatim>\<open>!session.currentQuestionId || isFinished\<close>
  of a loaded, non-empty bank; a click reaches the handler only while its button is
  rendered. \<^verbatim>\<open>!id\<close> holds of \<^verbatim>\<open>null\<close> and of \<open>0\<close>.
\<close>

definition falsy :: "enat option \<Rightarrow> bool" where
  "falsy v \<longleftrightarrow> (case v of None \<Rightarrow> True | Some n \<Rightarrow> n = 0)"

definition startOffered :: "App \<Rightarrow> bool" where
  "startOffered s \<longleftrightarrow>
     length (allQuestions s) \<noteq> 0 \<and> (falsy (currentQuestionId (session s)) \<or> isFinished s)"

definition clickStart :: "randomNumber \<Rightarrow> (nat \<Rightarrow> randomNumber) \<Rightarrow> App \<Rightarrow> App" where
  "clickStart rnd draws s = (if startOffered s then startTest rnd draws s else s)"

text \<open>
  \<^verbatim>\<open>handleReset\<close>. No question is current afterwards, so the render takes no draw. The
  effect that creates the progress records depends on \<^verbatim>\<open>allQuestions.length\<close> only and
  does not run again. The timer is not part of this state.
\<close>

definition handleReset :: "App \<Rightarrow> App" where
  "handleReset s =
     rerender s (shuffleDraws s)
       (s\<lparr>session := \<lparr>questionStates = fmempty, currentQuestionId = None\<rparr>,
          stats := \<lparr>totalAnswers = 0, correctAnswers = 0\<rparr>\<rparr>)"

text \<open>The state after the questions have loaded into a fresh store.\<close>

definition initialApp :: "Question list \<Rightarrow> (nat \<Rightarrow> randomNumber) \<Rightarrow> App" where
  "initialApp bank draws =
     \<lparr>allQuestions = bank,
      session = initializeQuestionStates bank \<lparr>questionStates = fmempty, currentQuestionId = None\<rparr>,
      stats = \<lparr>totalAnswers = 0, correctAnswers = 0\<rparr>,
      selectedIdx = None, hasAnswered = False, shuffleDraws = draws\<rparr>"

text \<open>
  A restart of the application restores the stored session and statistics; the selection
  and \<^verbatim>\<open>hasAnswered\<close> are not stored and start afresh, the memo is computed anew and the
  effect creates the records that are missing.
\<close>

definition restore :: "(nat \<Rightarrow> randomNumber) \<Rightarrow> App \<Rightarrow> App" where
  "restore draws s =
     \<lparr>allQuestions = allQuestions s,
      session = initializeQuestionStates (allQuestions s) (session s),
      stats = stats s,
      selectedIdx = None, hasAnswered = False, shuffleDraws = draws\<rparr>"

text \<open>
  The states that the program reaches from a freshly loaded bank: by answering,
  advancing, starting, resetting and restarting. \<open>step\<close> is one of these other than a
  reset.
\<close>

inductive reachable :: "App \<Rightarrow> bool" where
  loaded: "reachable (initialApp bank draws)"
| answered: "reachable s \<Longrightarrow> handleAnswer idx s = Inr s' \<Longrightarrow> reachable s'"
| advanced: "reachable s \<Longrightarrow> reachable (handleNext rnd draws s)"
| started: "reachable s \<Longrightarrow> reachable (startTest rnd draws s)"
| reset: "reachable s \<Longrightarrow> reachable (handleReset s)"
| restarted: "reachable s \<Longrightarrow> reachable (restore draws s)"

inductive step :: "App \<Rightarrow> App \<Rightarrow> bool" where
  step_answer: "handleAnswer idx s = Inr s' \<Longrightarrow> step s s'"
| step_next: "step s (handleNext rnd draws s)"
| step_start: "step s (startTest rnd draws s)"
| step_restart: "step s (restore draws s)"

text \<open>The active pool in the words of the specification: the bank questions whose
  progress record has \<^verbatim>\<open>isExcluded = false\<close>.\<close>

definition activePool :: "Question list \<Rightarrow> (enat, SessionQuestionState) fmap \<Rightarrow> Question list" where
  "activePool bank states =
     filter (\<lambda>q. case fmlookup states (id_q q) of None \<Rightarrow> False | Some qs \<Rightarrow> \<not> isExcluded qs) bank"

text \<open>
  A property that loading establishes and that answering, advancing, starting and
  resetting keep, but a restart does not: a counter never passes 5, a record is excluded
  exactly when its counter is 5, and a presentation that has not been answered yet shows
  a question that is not excluded.
\<close>

definition invariant :: "App \<Rightarrow> bool" where
  "invariant s \<longleftrightarrow>
     (\<forall>k ps. progress s k = Some ps \<longrightarrow>
        consecutiveCorrect ps \<le> 5 \<and> (isExcluded ps \<longleftrightarrow> consecutiveCorrect ps = 5)) \<and>
     (\<not> hasAnswered s \<longrightarrow>
        (\<forall>q ps. currentQuestion s = Some q \<longrightarrow> progress s (id_q q) = Some ps \<longrightarrow>
           \<not> isExcluded ps))"

text \<open>A corpus of two blocks that carry the same id.\<close>

definition duplicateIdCorpus :: jsstring where
  "duplicateIdCorpus =
     str (''1. a\<newline>x\<newline>y\<newline>z\<newline>'' @ replicate 35 CHR ''_'' @ ''\<newline>1. b\<newline>u\<newline>v\<newline>w'')"

text \<open>
  Questions for the examples: questions 1 and 2 with one correct option each, and
  question 3 with none. With every draw 0 the shuffle shows the options of question 1 in
  the order \<open>y\<close>, \<open>z\<close>, \<open>x\<close>.
\<close>

definition zeroRandom :: randomNumber where
  "zeroRandom = Abs_randomNumber 0"

definition halfRandom :: randomNumber where
  "halfRandom = Abs_randomNumber (1 / 2)"

definition exampleA :: Question where
  "exampleA = \<lparr>id_q = 1, text_q = str ''a'',
      options = [\<lparr>id_opt = 0, text_opt = str ''x'', isCorrect = True\<rparr>,
                 \<lparr>id_opt = 1, text_opt = str ''y'', isCorrect = False\<rparr>,
                 \<lparr>id_opt = 2, text_opt = str ''z'', isCorrect = False\<rparr>]\<rparr>"

definition exampleB :: Question where
  "exampleB = \<lparr>id_q = 2, text_q = str ''b'',
      options = [\<lparr>id_opt = 0, text_opt = str ''u'', isCorrect = True\<rparr>,
                 \<lparr>id_opt = 1, text_opt = str ''v'', isCorrect = False\<rparr>,
                 \<lparr>id_opt = 2, text_opt = str ''w'', isCorrect = False\<rparr>]\<rparr>"

definition exampleC :: Question where
  "exampleC = \<lparr>id_q = 3, text_q = str ''c'',
      options = [\<lparr>id_opt = 0, text_opt = str ''p'', isCorrect = False\<rparr>,
                 \<lparr>id_opt = 1, text_opt = str ''q'', isCorrect = False\<rparr>,
                 \<lparr>id_opt = 2, text_opt = str ''r'', isCorrect = False\<rparr>]\<rparr>"

definition recordOf :: "enat \<Rightarrow> nat \<Rightarrow> bool \<Rightarrow> SessionQuestionState" where
  "recordOf i n e = \<lparr>questionId = Some i, consecutiveCorrect = n, isExcluded = e\<rparr>"

text \<open>
  Question 1 is shown and not answered yet, after \<open>n\<close> correct answers to it in a row;
  the state right after the fifth; the state in which question 2 has just been mastered
  as the last one; and question 3, alone in its bank, shown and not answered yet.
\<close>

definition practice :: "nat \<Rightarrow> App" where
  "practice n =
     \<lparr>allQuestions = [exampleA, exampleB],
      session = \<lparr>questionStates =
                   fmupd 1 (recordOf 1 n False) (fmupd 2 (recordOf 2 0 False) fmempty),
                 currentQuestionId = Some 1\<rparr>,
      stats = \<lparr>totalAnswers = n, correctAnswers = n\<rparr>,
      selectedIdx = None, hasAnswered = False, shuffleDraws = (\<lambda>i. zeroRandom)\<rparr>"

definition mastered :: App where
  "mastered =
     \<lparr>allQuestions = [exampleA, exampleB],
      session = \<lparr>questionStates =
                   fmupd 1 (recordOf 1 5 True) (fmupd 2 (recordOf 2 0 False) fmempty),
                 currentQuestionId = Some 1\<rparr>,
      stats = \<lparr>totalAnswers = 5, correctAnswers = 5\<rparr>,
      selectedIdx = Some 2, hasAnswered = True, shuffleDraws = (\<lambda>i. zeroRandom)\<rparr>"

definition finished :: App where
  "finished =
     \<lparr>allQuestions = [exampleA, exampleB],
      session = \<lparr>questionStates =
                   fmupd 1 (recordOf 1 5 True) (fmupd 2 (recordOf 2 5 True) fmempty),
                 currentQuestionId = Some 2\<rparr>,
      stats = \<lparr>totalAnswers = 10, correctAnswers = 10\<rparr>,
      selectedIdx = Some 2, hasAnswered = True, shuffleDraws = (\<lambda>i. zeroRandom)\<rparr>"

definition shownC :: App where
  "shownC =
     \<lparr>allQuestions = [exampleC],
      session = \<lparr>questionStates = fmupd 3 (recordOf 3 0 False) fmempty,
                 currentQuestionId = Some 3\<rparr>,
      stats = \<lparr>totalAnswers = 0, correctAnswers = 0\<rparr>,
      selectedIdx = None, hasAnswered = False, shuffleDraws = (\<lambda>i. zeroRandom)\<rparr>"

section \<open>Lemmas about the session engine\<close>

lemma randomIndex_less: "0 < n \<Longrightarrow> randomIndex r n < n"
proof -
  assume n: "0 < n"
  have r: "0 \<le> Rep_randomNumber r" "Rep_randomNumber r < 1"
    using Rep_randomNumber [of r] by auto
  have "Rep_randomNumber r * real n < real n"
    using r n by simp
  then have "\<lfloor>Rep_randomNumber r * real n\<rfloor> < int n"
    by (simp add: floor_less_iff)
  moreover have "0 \<le> \<lfloor>Rep_randomNumber r * real n\<rfloor>"
    using r by simp
  ultimately show ?thesis
    unfolding randomIndex_def by linarith
qed

lemma mset_shuffleFrom: "i < length xs \<Longrightarrow> mset (shuffleFrom draws i xs) = mset xs"
proof (induction i arbitrary: xs)
  case 0
  then show ?case by simp
next
  case (Suc i)
  have j: "randomIndex (draws (Suc i)) (Suc i + 1) < length xs"
    using randomIndex_less [of "Suc i + 1" "draws (Suc i)"] Suc.prems by simp
  have "mset (xs[Suc i := xs ! randomIndex (draws (Suc i)) (Suc i + 1),
                 randomIndex (draws (Suc i)) (Suc i + 1) := xs ! Suc i]) = mset xs"
    using Suc.prems j by (simp add: mset_swap)
  then show ?case
    using Suc.IH [of "xs[Suc i := xs ! randomIndex (draws (Suc i)) (Suc i + 1),
                 randomIndex (draws (Suc i)) (Suc i + 1) := xs ! Suc i]"] Suc.prems
    by (simp add: Let_def)
qed

lemma mset_shuffle: "mset (shuffle draws xs) = mset xs"
  by (cases xs) (simp_all add: shuffle_def mset_shuffleFrom)

lemma set_shuffle: "set (shuffle draws xs) = set xs"
  using mset_shuffle [of draws xs] by (metis set_mset_mset)

lemma elementAt_mem: "elementAt xs i = Some x \<Longrightarrow> x \<in> set xs"
  by (auto simp: elementAt_def split: if_splits)

lemma chosenIsCorrect_option:
  "chosenIsCorrect idx s \<Longrightarrow> currentQuestion s = Some q \<Longrightarrow> \<exists>x \<in> set (options q). isCorrect x"
  by (auto simp: chosenIsCorrect_def displayedOptions_def set_shuffle
      split: option.splits dest!: elementAt_mem)

lemma pick_None_iff:
  "pickNextQuestionId questions states rnd = None \<longleftrightarrow> candidates questions states = []"
  by (simp add: pickNextQuestionId_def)

lemma pick_Some:
  "pickNextQuestionId questions states rnd = Some i \<Longrightarrow>
   \<exists>q \<in> set (candidates questions states). id_q q = i"
proof -
  assume a: "pickNextQuestionId questions states rnd = Some i"
  then have ne: "0 < length (candidates questions states)"
    by (auto simp: pickNextQuestionId_def split: if_splits)
  from randomIndex_less [OF this, of rnd]
  have "candidates questions states ! randomIndex rnd (length (candidates questions states))
      \<in> set (candidates questions states)" by simp
  with a ne show ?thesis
    by (auto simp: pickNextQuestionId_def split: if_splits)
qed

lemma session_rerender [simp]: "session (rerender old draws new) = session new"
  by (simp add: rerender_def Let_def)

lemma stats_rerender [simp]: "stats (rerender old draws new) = stats new"
  by (simp add: rerender_def Let_def)

lemma allQuestions_rerender [simp]: "allQuestions (rerender old draws new) = allQuestions new"
  by (simp add: rerender_def Let_def)

lemma hasAnswered_rerender:
  "hasAnswered (rerender old draws new) =
     (if currentQuestionId (session new) = currentQuestionId (session old)
      then hasAnswered new else False)"
  by (simp add: rerender_def Let_def)

lemma progress_rerender [simp]: "progress (rerender old draws new) = progress new"
  by (simp add: progress_def fun_eq_iff)

lemma currentQuestion_rerender [simp]:
  "currentQuestion (rerender old draws new) = currentQuestion new"
  by (simp add: currentQuestion_def)

lemma handleAnswer_noop:
  "hasAnswered s \<or> currentQuestion s = None \<Longrightarrow> handleAnswer idx s = Inr s"
  by (auto simp: handleAnswer_def)

lemma handleAnswer_record:
  assumes "\<not> hasAnswered s" and "currentQuestion s = Some q"
    and "progress s (id_q q) = Some qs"
  shows "handleAnswer idx s =
    Inr (s\<lparr>selectedIdx := Some idx, hasAnswered := True,
           stats := \<lparr>totalAnswers = totalAnswers (stats s) + 1,
                     correctAnswers = correctAnswers (stats s) +
                       (if chosenIsCorrect idx s then 1 else 0)\<rparr>,
           session := (session s)\<lparr>questionStates :=
             fmupd (id_q q)
               (qs\<lparr>consecutiveCorrect :=
                      (if chosenIsCorrect idx s then consecutiveCorrect qs + 1 else 0),
                    isExcluded := chosenIsCorrect idx s \<and> 4 \<le> consecutiveCorrect qs\<rparr>)
               (questionStates (session s))\<rparr>\<rparr>)"
  using assms by (simp add: handleAnswer_def progress_def Let_def)

lemma handleAnswer_missing:
  assumes "\<not> hasAnswered s" and "currentQuestion s = Some q"
    and "progress s (id_q q) = None"
  shows "handleAnswer idx s =
    (if chosenIsCorrect idx s then Inl TypeError
     else Inr (s\<lparr>selectedIdx := Some idx, hasAnswered := True,
           stats := \<lparr>totalAnswers = totalAnswers (stats s) + 1,
                     correctAnswers = correctAnswers (stats s)\<rparr>,
           session := (session s)\<lparr>questionStates :=
             fmupd (id_q q) \<lparr>questionId = None, consecutiveCorrect = 0, isExcluded = False\<rparr>
               (questionStates (session s))\<rparr>\<rparr>))"
  using assms by (simp add: handleAnswer_def progress_def Let_def)

lemma handleAnswer_session:
  assumes "handleAnswer idx s = Inr s'"
  shows "currentQuestionId (session s') = currentQuestionId (session s)"
    and "allQuestions s' = allQuestions s"
    and "currentQuestion s' = currentQuestion s"
proof -
  consider "hasAnswered s \<or> currentQuestion s = None"
    | q qs where "\<not> hasAnswered s" "currentQuestion s = Some q" "progress s (id_q q) = Some qs"
    | q where "\<not> hasAnswered s" "currentQuestion s = Some q" "progress s (id_q q) = None"
    by (cases "currentQuestion s"; cases "hasAnswered s") auto
  then have "currentQuestionId (session s') = currentQuestionId (session s) \<and>
      allQuestions s' = allQuestions s"
  proof cases
    case 1
    with assms show ?thesis by (simp add: handleAnswer_noop)
  next
    case 2
    with assms show ?thesis by (auto simp: handleAnswer_record)
  next
    case 3
    with assms show ?thesis by (auto simp: handleAnswer_missing split: if_splits)
  qed
  then show "currentQuestionId (session s') = currentQuestionId (session s)"
    and "allQuestions s' = allQuestions s"
    and "currentQuestion s' = currentQuestion s"
    by (simp_all add: currentQuestion_def)
qed

lemma handleAnswer_other:
  assumes "handleAnswer idx s = Inr s'" and "currentQuestion s = Some q" and "k \<noteq> id_q q"
  shows "progress s' k = progress s k"
proof (cases "hasAnswered s")
  case True
  with assms show ?thesis by (simp add: handleAnswer_noop)
next
  case False
  show ?thesis
  proof (cases "progress s (id_q q)")
    case None
    with False assms show ?thesis
      by (auto simp: handleAnswer_missing progress_def split: if_splits)
  next
    case (Some qs)
    with False assms show ?thesis
      by (auto simp: handleAnswer_record progress_def)
  qed
qed

lemma invariant_handleAnswer:
  assumes "invariant s" and "handleAnswer idx s = Inr s'"
  shows "invariant s'"
proof (cases "hasAnswered s \<or> currentQuestion s = None")
  case True
  with assms show ?thesis by (simp add: handleAnswer_noop)
next
  case False
  then obtain q where q: "\<not> hasAnswered s" "currentQuestion s = Some q" by auto
  show ?thesis
  proof (cases "progress s (id_q q)")
    case None
    with q assms(2) have s': "s' = s\<lparr>selectedIdx := Some idx, hasAnswered := True,
           stats := \<lparr>totalAnswers = totalAnswers (stats s) + 1,
                     correctAnswers = correctAnswers (stats s)\<rparr>,
           session := (session s)\<lparr>questionStates :=
             fmupd (id_q q) \<lparr>questionId = None, consecutiveCorrect = 0, isExcluded = False\<rparr>
               (questionStates (session s))\<rparr>\<rparr>"
      by (auto simp: handleAnswer_missing split: if_splits)
    show ?thesis
      using assms(1) unfolding invariant_def s' by (auto simp: progress_def)
  next
    case (Some qs)
    with q assms(1) have qs: "consecutiveCorrect qs < 5" "\<not> isExcluded qs"
      unfolding invariant_def by (auto simp: le_less)
    from Some q assms(2) have s': "s' = s\<lparr>selectedIdx := Some idx, hasAnswered := True,
           stats := \<lparr>totalAnswers = totalAnswers (stats s) + 1,
                     correctAnswers = correctAnswers (stats s) +
                       (if chosenIsCorrect idx s then 1 else 0)\<rparr>,
           session := (session s)\<lparr>questionStates :=
             fmupd (id_q q)
               (qs\<lparr>consecutiveCorrect :=
                      (if chosenIsCorrect idx s then consecutiveCorrect qs + 1 else 0),
                    isExcluded := chosenIsCorrect idx s \<and> 4 \<le> consecutiveCorrect qs\<rparr>)
               (questionStates (session s))\<rparr>\<rparr>"
      by (simp add: handleAnswer_record)
    show ?thesis
      using assms(1) qs unfolding invariant_def s' by (auto simp: progress_def)
  qed
qed

lemma not_excluded_candidate:
  "q \<in> set (candidates questions states) \<Longrightarrow> fmlookup states (id_q q) = Some ps \<Longrightarrow>
   \<not> isExcluded ps"
  by (auto simp: candidates_def excluded_def)

lemma currentQuestion_id: "currentQuestion s = Some q \<Longrightarrow> currentQuestionId (session s) = Some (id_q q)"
  by (auto simp: currentQuestion_def dest: find_Some_iff [THEN iffD1])

lemma invariant_advance:
  assumes "invariant s"
  shows "invariant (advance rnd draws s)"
proof -
  let ?p = "pickNextQuestionId (allQuestions s) (questionStates (session s)) rnd"
  let ?s1 = "s\<lparr>session := (session s)\<lparr>currentQuestionId := ?p\<rparr>\<rparr>"
  have prog: "progress (advance rnd draws s) = progress s"
    by (simp add: advance_def) (simp add: progress_def fun_eq_iff)
  have cur: "currentQuestion (advance rnd draws s) = currentQuestion ?s1"
    by (simp add: advance_def)
  have "\<not> isExcluded ps"
    if "currentQuestion ?s1 = Some q" and "progress s (id_q q) = Some ps" for q ps
  proof -
    from that(1) have "?p = Some (id_q q)"
      using currentQuestion_id [of ?s1 q] by simp
    from pick_Some [OF this] obtain q0 where
      "q0 \<in> set (candidates (allQuestions s) (questionStates (session s)))" "id_q q0 = id_q q"
      by auto
    with that(2) show ?thesis
      using not_excluded_candidate [of q0 "allQuestions s" "questionStates (session s)" ps]
      by (simp add: progress_def)
  qed
  with assms show ?thesis
    unfolding invariant_def prog cur by blast
qed

lemma fold_initialize:
  assumes "\<forall>k ps. fmlookup m k = Some ps \<longrightarrow> P ps"
    and "\<forall>i. P \<lparr>questionId = Some i, consecutiveCorrect = 0, isExcluded = False\<rparr>"
  shows "\<forall>k ps. fmlookup (foldl (\<lambda>updated q.
                 if fmlookup updated (id_q q) = None
                 then fmupd (id_q q)
                        \<lparr>questionId = Some (id_q q), consecutiveCorrect = 0, isExcluded = False\<rparr>
                        updated
                 else updated) m qs) k = Some ps \<longrightarrow> P ps"
  using assms(1)
proof (induction qs arbitrary: m)
  case Nil
  then show ?case by simp
next
  case (Cons q qs)
  show ?case
    unfolding foldl_Cons
    by (rule Cons.IH) (use Cons.prems assms(2) in \<open>auto split: if_splits\<close>)
qed

lemma invariant_initialApp: "invariant (initialApp bank draws)"
proof -
  have "\<forall>k ps. progress (initialApp bank draws) k = Some ps \<longrightarrow>
      consecutiveCorrect ps \<le> 5 \<and> (isExcluded ps \<longleftrightarrow> consecutiveCorrect ps = 5)"
    unfolding progress_def initialApp_def initializeQuestionStates_def
    using fold_initialize [of fmempty
        "\<lambda>ps. consecutiveCorrect ps \<le> 5 \<and> (isExcluded ps \<longleftrightarrow> consecutiveCorrect ps = 5)" bank]
    by simp
  moreover have "currentQuestion (initialApp bank draws) = None"
    by (simp add: currentQuestion_def initialApp_def initializeQuestionStates_def find_None_iff)
  ultimately show ?thesis
    unfolding invariant_def by simp
qed

lemma invariant_handleReset: "invariant (handleReset s)"
  unfolding invariant_def handleReset_def
  by (simp add: currentQuestion_def find_None_iff) (simp add: progress_def)

subsection \<open>Steps and resets\<close>

lemma fold_initialize_keeps:
  "fmlookup m k = Some ps \<Longrightarrow>
   fmlookup (foldl (\<lambda>updated q.
                 if fmlookup updated (id_q q) = None
                 then fmupd (id_q q)
                        \<lparr>questionId = Some (id_q q), consecutiveCorrect = 0, isExcluded = False\<rparr>
                        updated
                 else updated) m qs) k = Some ps"
proof (induction qs arbitrary: m)
  case Nil
  then show ?case by simp
next
  case (Cons q qs)
  show ?case
    unfolding foldl_Cons
    by (rule Cons.IH) (use Cons.prems in \<open>auto split: if_splits\<close>)
qed

lemma progress_restore:
  "progress s k = Some ps \<Longrightarrow> progress (restore draws s) k = Some ps"
  by (simp add: progress_def restore_def initializeQuestionStates_def fold_initialize_keeps)

lemma excluded_after_step:
  assumes "invariant s" and "step s s'" and "progress s k = Some ps" and "isExcluded ps"
  shows "\<exists>ps'. progress s' k = Some ps' \<and> isExcluded ps'"
  using assms(2)
proof cases
  case (step_answer idx)
  show ?thesis
  proof (cases "hasAnswered s \<or> currentQuestion s = None")
    case True
    with step_answer assms(3,4) show ?thesis by (simp add: handleAnswer_noop)
  next
    case False
    then obtain q where q: "\<not> hasAnswered s" "currentQuestion s = Some q" by auto
    with assms(1,3,4) have "k \<noteq> id_q q"
      unfolding invariant_def by auto
    with handleAnswer_other [OF step_answer q(2)] assms(3,4) show ?thesis by simp
  qed
next
  case (step_next rnd draws)
  have "progress (handleNext rnd draws s) = progress s"
    by (simp add: handleNext_def advance_def) (simp add: progress_def fun_eq_iff)
  with step_next assms(3,4) show ?thesis by simp
next
  case (step_start rnd draws)
  have "progress (startTest rnd draws s) = progress s"
    by (simp add: startTest_def advance_def) (simp add: progress_def fun_eq_iff)
  with step_start assms(3,4) show ?thesis by simp
next
  case (step_restart draws)
  with progress_restore [OF assms(3)] assms(4) show ?thesis by simp
qed

lemma reachable_step: "reachable s \<Longrightarrow> step s s' \<Longrightarrow> reachable s'"
  by (auto elim!: step.cases intro: reachable.intros)

lemma handleAnswer_throws_iff:
  "handleAnswer idx s = Inl e \<longleftrightarrow>
     \<not> hasAnswered s \<and> (\<exists>q. currentQuestion s = Some q \<and> progress s (id_q q) = None) \<and>
     chosenIsCorrect idx s"
proof (cases "hasAnswered s \<or> currentQuestion s = None")
  case True
  then show ?thesis by (auto simp: handleAnswer_noop)
next
  case False
  then obtain q where q: "\<not> hasAnswered s" "currentQuestion s = Some q" by auto
  show ?thesis
  proof (cases "progress s (id_q q)")
    case None
    with q show ?thesis by (cases e) (auto simp: handleAnswer_missing)
  next
    case (Some qs)
    with q show ?thesis by (auto simp: handleAnswer_record)
  qed
qed

lemma ffilter_finsert:
  "ffilter P (finsert x A) = (if P x then finsert x (ffilter P A) else ffilter P A)"
  by auto

lemma ffilter_fempty: "ffilter P {||} = {||}"
  by auto

lemma isFinished_iff:
  "isFinished s \<longleftrightarrow> (\<forall>k ps. progress s k = Some ps \<longrightarrow> isExcluded ps)"
proof -
  have "isFinished s \<longleftrightarrow>
      (\<forall>k. k |\<in>| fmdom (questionStates (session s)) \<longrightarrow>
         \<not> (case progress s k of None \<Rightarrow> False | Some qs \<Rightarrow> \<not> isExcluded qs))"
    unfolding isFinished_def activeCount_def fcard_0_eq by auto
  also have "\<dots> \<longleftrightarrow> (\<forall>k ps. progress s k = Some ps \<longrightarrow> isExcluded ps)"
    by (auto simp: progress_def fmlookup_dom_iff split: option.splits)
  finally show ?thesis .
qed

lemma candidates_iff:
  "q \<in> set (candidates questions states) \<longleftrightarrow>
     q \<in> set questions \<and> (\<forall>ps. fmlookup states (id_q q) = Some ps \<longrightarrow> \<not> isExcluded ps)"
  by (auto simp: candidates_def excluded_def split: option.splits)

lemma candidates_empty_iff:
  "candidates questions states = [] \<longleftrightarrow>
     (\<forall>q \<in> set questions. \<exists>ps. fmlookup states (id_q q) = Some ps \<and> isExcluded ps)"
  by (auto simp: candidates_def excluded_def filter_empty_conv split: option.splits)

lemma candidates_activePool:
  "\<forall>q \<in> set bank. fmlookup states (id_q q) \<noteq> None \<Longrightarrow>
   candidates bank states = activePool bank states"
  unfolding candidates_def activePool_def excluded_def
  by (rule filter_cong) (auto split: option.splits)

lemma handleReset_session:
  "session (handleReset s) = \<lparr>questionStates = fmempty, currentQuestionId = None\<rparr>"
  by (simp add: handleReset_def)

lemma session_advance:
  "session (advance rnd draws s) =
     (session s)\<lparr>currentQuestionId :=
        pickNextQuestionId (allQuestions s) (questionStates (session s)) rnd\<rparr>"
  by (simp add: advance_def)

lemma handleReset_no_records:
  "activeCount (handleReset s) = 0 \<and> allQuestions (handleReset s) = allQuestions s \<and>
   progress (handleReset s) k = None \<and> currentQuestionId (session (handleReset s)) = None \<and>
   stats (handleReset s) = \<lparr>totalAnswers = 0, correctAnswers = 0\<rparr>"
  by (simp add: activeCount_def progress_def handleReset_session ffilter_fempty)
     (simp add: handleReset_def)

subsection \<open>The example states\<close>

lemma randomIndex_zero [simp]: "randomIndex zeroRandom n = 0"
  by (simp add: randomIndex_def zeroRandom_def Abs_randomNumber_inverse)

lemma randomIndex_half_2 [simp]: "randomIndex halfRandom (Suc (Suc 0)) = Suc 0"
  by (simp add: randomIndex_def halfRandom_def Abs_randomNumber_inverse)

lemma example_ids [simp]: "id_q exampleA = 1" "id_q exampleB = 2"
  by (simp_all add: exampleA_def exampleB_def)

lemma one_two_enat [simp]: "(1::enat) \<noteq> 2" "(2::enat) \<noteq> 1"
  by (simp_all add: one_enat_def numeral_eq_enat)

lemma initial_example:
  "initialApp [exampleA, exampleB] (\<lambda>i. zeroRandom) =
     \<lparr>allQuestions = [exampleA, exampleB],
      session = \<lparr>questionStates =
                   fmupd 1 (recordOf 1 0 False) (fmupd 2 (recordOf 2 0 False) fmempty),
                 currentQuestionId = None\<rparr>,
      stats = \<lparr>totalAnswers = 0, correctAnswers = 0\<rparr>,
      selectedIdx = None, hasAnswered = False, shuffleDraws = (\<lambda>i. zeroRandom)\<rparr>"
  by (simp add: initialApp_def initializeQuestionStates_def recordOf_def
      fmupd_reorder_neq [of 2 1])

lemma candidates_both:
  "candidates [exampleA, exampleB]
     (fmupd 1 (recordOf 1 n False) (fmupd 2 (recordOf 2 0 False) fmempty)) = [exampleA, exampleB]"
  by (simp add: candidates_def excluded_def recordOf_def)

lemma start_example:
  "startTest zeroRandom (\<lambda>i. zeroRandom) (initialApp [exampleA, exampleB] (\<lambda>i. zeroRandom)) =
   practice 0"
  unfolding initial_example
  by (simp add: startTest_def advance_def pickNextQuestionId_def candidates_both rerender_def
      currentQuestion_def practice_def)

lemma displayed_example:
  "shuffle (\<lambda>i. zeroRandom) (options exampleA) =
     [\<lparr>id_opt = 1, text_opt = str ''y'', isCorrect = False\<rparr>,
      \<lparr>id_opt = 2, text_opt = str ''z'', isCorrect = False\<rparr>,
      \<lparr>id_opt = 0, text_opt = str ''x'', isCorrect = True\<rparr>]"
  by (simp add: shuffle_def exampleA_def numeral_2_eq_2)

lemma currentQuestion_practice [simp]: "currentQuestion (practice n) = Some exampleA"
  by (simp add: currentQuestion_def practice_def)

lemma chosen_practice [simp]: "chosenIsCorrect 2 (practice n)"
  by (simp add: chosenIsCorrect_def displayedOptions_def displayed_example elementAt_def)
     (simp add: practice_def displayed_example)

lemma answer_practice:
  "handleAnswer 2 (practice n) =
     Inr \<lparr>allQuestions = [exampleA, exampleB],
      session = \<lparr>questionStates =
                   fmupd 1 (recordOf 1 (n + 1) (4 \<le> n)) (fmupd 2 (recordOf 2 0 False) fmempty),
                 currentQuestionId = Some 1\<rparr>,
      stats = \<lparr>totalAnswers = n + 1, correctAnswers = n + 1\<rparr>,
      selectedIdx = Some 2, hasAnswered = True, shuffleDraws = (\<lambda>i. zeroRandom)\<rparr>"
proof -
  have h: "\<not> hasAnswered (practice n)"
    by (simp add: practice_def)
  have p: "progress (practice n) (id_q exampleA) = Some (recordOf 1 n False)"
    by (simp add: progress_def practice_def)
  show ?thesis
    by (simp add: handleAnswer_record [OF h currentQuestion_practice p])
       (simp add: practice_def recordOf_def)
qed

lemma pick_half:
  "pickNextQuestionId [exampleA, exampleB]
     (fmupd 1 (recordOf 1 n False) (fmupd 2 (recordOf 2 0 False) fmempty)) halfRandom = Some 2"
  by (simp add: pickNextQuestionId_def candidates_both)

lemma pick_zero:
  "pickNextQuestionId [exampleA, exampleB]
     (fmupd 1 (recordOf 1 n False) (fmupd 2 (recordOf 2 0 False) fmempty)) zeroRandom = Some 1"
  by (simp add: pickNextQuestionId_def candidates_both)

lemma advance_to_B:
  "advance halfRandom (\<lambda>i. zeroRandom)
     \<lparr>allQuestions = [exampleA, exampleB],
      session = \<lparr>questionStates =
                   fmupd 1 (recordOf 1 n False) (fmupd 2 (recordOf 2 0 False) fmempty),
                 currentQuestionId = Some 1\<rparr>,
      stats = \<lparr>totalAnswers = n, correctAnswers = n\<rparr>,
      selectedIdx = Some 2, hasAnswered = True, shuffleDraws = (\<lambda>i. zeroRandom)\<rparr> =
     \<lparr>allQuestions = [exampleA, exampleB],
      session = \<lparr>questionStates =
                   fmupd 1 (recordOf 1 n False) (fmupd 2 (recordOf 2 0 False) fmempty),
                 currentQuestionId = Some 2\<rparr>,
      stats = \<lparr>totalAnswers = n, correctAnswers = n\<rparr>,
      selectedIdx = None, hasAnswered = False, shuffleDraws = (\<lambda>i. zeroRandom)\<rparr>"
  by (simp add: advance_def pick_half rerender_def currentQuestion_def)

lemma advance_to_A:
  "advance zeroRandom (\<lambda>i. zeroRandom)
     \<lparr>allQuestions = [exampleA, exampleB],
      session = \<lparr>questionStates =
                   fmupd 1 (recordOf 1 n False) (fmupd 2 (recordOf 2 0 False) fmempty),
                 currentQuestionId = Some 2\<rparr>,
      stats = \<lparr>totalAnswers = n, correctAnswers = n\<rparr>,
      selectedIdx = None, hasAnswered = False, shuffleDraws = (\<lambda>i. zeroRandom)\<rparr> =
     practice n"
  by (simp add: advance_def pick_zero rerender_def currentQuestion_def practice_def)

lemma reachable_practice: "n \<le> 4 \<Longrightarrow> reachable (practice n)"
proof (induction n)
  case 0
  show ?case
    using reachable.started [OF reachable.loaded, of zeroRandom "\<lambda>i. zeroRandom"
        "[exampleA, exampleB]" "\<lambda>i. zeroRandom"]
    by (simp add: start_example)
next
  case (Suc n)
  then have n: "n < 4" and r: "reachable (practice n)" by simp_all
  let ?s1 = "\<lparr>allQuestions = [exampleA, exampleB],
      session = \<lparr>questionStates =
                   fmupd 1 (recordOf 1 (n + 1) False) (fmupd 2 (recordOf 2 0 False) fmempty),
                 currentQuestionId = Some 1\<rparr>,
      stats = \<lparr>totalAnswers = n + 1, correctAnswers = n + 1\<rparr>,
      selectedIdx = Some 2, hasAnswered = True, shuffleDraws = (\<lambda>i. zeroRandom)\<rparr>"
  have "handleAnswer 2 (practice n) = Inr ?s1"
    using n by (simp add: answer_practice)
  with r have "reachable ?s1" by (rule reachable.answered)
  then have "reachable (handleNext halfRandom (\<lambda>i. zeroRandom) ?s1)"
    by (rule reachable.advanced)
  then have "reachable (handleNext zeroRandom (\<lambda>i. zeroRandom)
      (handleNext halfRandom (\<lambda>i. zeroRandom) ?s1))"
    by (rule reachable.advanced)
  moreover have "handleNext halfRandom (\<lambda>i. zeroRandom) ?s1 =
      advance halfRandom (\<lambda>i. zeroRandom) ?s1"
    by (simp add: handleNext_def currentQuestion_def)
  moreover have "handleNext zeroRandom (\<lambda>i. zeroRandom)
      (advance halfRandom (\<lambda>i. zeroRandom) ?s1) = practice (Suc n)"
    using n by (simp add: advance_to_B) (simp add: handleNext_def currentQuestion_def advance_to_A)
  ultimately show ?case by simp
qed

lemma reachable_mastered: "reachable mastered"
proof -
  have "handleAnswer 2 (practice 4) = Inr mastered"
    by (simp add: answer_practice mastered_def)
  with reachable_practice [of 4] show ?thesis
    by (auto intro: reachable.answered)
qed

lemma currentQuestion_finished: "currentQuestion finished = Some exampleB"
  by (simp add: currentQuestion_def finished_def)

lemma isFinished_finished: "isFinished finished"
  by (simp add: isFinished_iff progress_def finished_def recordOf_def)

text \<open>
  After a restart in the state \<open>mastered\<close> the excluded question 1 is current and can be
  answered again: an incorrect answer puts it back into the pool, a correct one takes
  its counter to 6. The restart leaves \<open>invariant\<close>.
\<close>

lemma restore_mastered:
  "restore (\<lambda>i. zeroRandom) mastered = mastered\<lparr>selectedIdx := None, hasAnswered := False\<rparr>"
  by (simp add: restore_def mastered_def initializeQuestionStates_def)

lemma restore_answer:
  "\<exists>s'. handleAnswer 0 (restore (\<lambda>i. zeroRandom) mastered) = Inr s' \<and>
     progress s' 1 = Some (recordOf 1 0 False)"
proof -
  let ?s = "mastered\<lparr>selectedIdx := None, hasAnswered := False\<rparr>"
  have h: "\<not> hasAnswered ?s" by simp
  have c: "currentQuestion ?s = Some exampleA"
    by (simp add: currentQuestion_def mastered_def)
  have p: "progress ?s (id_q exampleA) = Some (recordOf 1 5 True)"
    by (simp add: progress_def mastered_def)
  have n: "\<not> chosenIsCorrect 0 ?s"
    by (simp add: chosenIsCorrect_def displayedOptions_def c elementAt_def)
       (simp add: mastered_def displayed_example)
  show ?thesis
    unfolding restore_mastered
    by (simp add: handleAnswer_record [OF h c p] n progress_def recordOf_def)
qed

lemma restore_answer_correct:
  "\<exists>s'. handleAnswer 2 (restore (\<lambda>i. zeroRandom) mastered) = Inr s' \<and>
     progress s' 1 = Some (recordOf 1 6 True)"
proof -
  let ?s = "mastered\<lparr>selectedIdx := None, hasAnswered := False\<rparr>"
  have h: "\<not> hasAnswered ?s" by simp
  have c: "currentQuestion ?s = Some exampleA"
    by (simp add: currentQuestion_def mastered_def)
  have p: "progress ?s (id_q exampleA) = Some (recordOf 1 5 True)"
    by (simp add: progress_def mastered_def)
  have n: "chosenIsCorrect 2 ?s"
    by (simp add: chosenIsCorrect_def displayedOptions_def c elementAt_def)
       (simp add: mastered_def displayed_example)
  show ?thesis
    unfolding restore_mastered
    by (simp add: handleAnswer_record [OF h c p] n progress_def recordOf_def)
qed

lemma invariant_practice: "n \<le> 4 \<Longrightarrow> invariant (practice n)"
proof (induction n)
  case 0
  have "invariant (startTest zeroRandom (\<lambda>i. zeroRandom)
      (initialApp [exampleA, exampleB] (\<lambda>i. zeroRandom)))"
    unfolding startTest_def by (intro invariant_advance invariant_initialApp)
  then show ?case by (simp add: start_example)
next
  case (Suc n)
  then have n: "n < 4" and i: "invariant (practice n)" by simp_all
  let ?s1 = "\<lparr>allQuestions = [exampleA, exampleB],
      session = \<lparr>questionStates =
                   fmupd 1 (recordOf 1 (n + 1) False) (fmupd 2 (recordOf 2 0 False) fmempty),
                 currentQuestionId = Some 1\<rparr>,
      stats = \<lparr>totalAnswers = n + 1, correctAnswers = n + 1\<rparr>,
      selectedIdx = Some 2, hasAnswered = True, shuffleDraws = (\<lambda>i. zeroRandom)\<rparr>"
  have "handleAnswer 2 (practice n) = Inr ?s1"
    using n by (simp add: answer_practice)
  with i have "invariant ?s1" by (rule invariant_handleAnswer)
  then have "invariant (advance zeroRandom (\<lambda>i. zeroRandom)
      (advance halfRandom (\<lambda>i. zeroRandom) ?s1))"
    by (intro invariant_advance)
  then show ?case by (simp add: advance_to_B advance_to_A)
qed

lemma invariant_restore_mastered:
  "invariant mastered \<and> \<not> invariant (restore (\<lambda>i. zeroRandom) mastered)"
proof
  have "handleAnswer 2 (practice 4) = Inr mastered"
    by (simp add: answer_practice mastered_def)
  with invariant_practice [of 4] show "invariant mastered"
    by (auto intro: invariant_handleAnswer)
next
  let ?s = "mastered\<lparr>selectedIdx := None, hasAnswered := False\<rparr>"
  have "\<not> hasAnswered ?s" by simp
  moreover have "currentQuestion ?s = Some exampleA"
    by (simp add: currentQuestion_def mastered_def)
  moreover have "progress ?s (id_q exampleA) = Some (recordOf 1 5 True)"
    by (simp add: progress_def mastered_def)
  moreover have "isExcluded (recordOf 1 5 True)"
    by (simp add: recordOf_def)
  ultimately have "\<not> invariant ?s"
    unfolding invariant_def by blast
  then show "\<not> invariant (restore (\<lambda>i. zeroRandom) mastered)"
    by (simp add: restore_mastered)
qed

section \<open>The parser\<close>

text \<open>
  C6. The corpus \<^verbatim>\<open>"12. What color is the sky?\n* blue\nred\ngreen\n"\<close> followed by a line
  of 35 underscores parses to the single question 12 with the text
  \<^verbatim>\<open>What color is the sky?\<close> and the options blue (correct), red and green, numbered 0,
  1, 2 in this order. This holds with and without a newline after the underscores.
\<close>

theorem parseQuestions_sky_example:
  "parseQuestions (str (''12. What color is the sky?\<newline>* blue\<newline>red\<newline>green\<newline>'' @
                        replicate 35 CHR ''_'')) =
     [\<lparr>id_q = 12, text_q = str ''What color is the sky?'',
       options = [\<lparr>id_opt = 0, text_opt = str ''blue'', isCorrect = True\<rparr>,
                  \<lparr>id_opt = 1, text_opt = str ''red'', isCorrect = False\<rparr>,
                  \<lparr>id_opt = 2, text_opt = str ''green'', isCorrect = False\<rparr>]\<rparr>] \<and>
   parseQuestions (str (''12. What color is the sky?\<newline>* blue\<newline>red\<newline>green\<newline>'' @
                        replicate 35 CHR ''_'' @ ''\<newline>'')) =
     [\<lparr>id_q = 12, text_q = str ''What color is the sky?'',
       options = [\<lparr>id_opt = 0, text_opt = str ''blue'', isCorrect = True\<rparr>,
                  \<lparr>id_opt = 1, text_opt = str ''red'', isCorrect = False\<rparr>,
                  \<lparr>id_opt = 2, text_opt = str ''green'', isCorrect = False\<rparr>]\<rparr>]"
  by code_simp

text \<open>
  C3. A block is meant to be dropped when none of its first three lines starts with
  digits, optional white space and a period. The loop stops at index 3 without having
  tested that line, the guard \<^verbatim>\<open>questionLineIndex >= lines.length\<close> that follows never
  holds for a block of at least four lines, and the fourth line is then matched as the
  question line: a block of seven lines whose first three are prose yields a question.
\<close>

theorem parseQuestions_fourth_line:
  "\<not> testRe questionRe (str ''intro'') \<and> \<not> testRe questionRe (str ''more'') \<and>
   \<not> testRe questionRe (str ''notes'') \<and>
   parseQuestions (str ''intro\<newline>more\<newline>notes\<newline>7. q?\<newline>* x\<newline>y\<newline>z'') =
     [\<lparr>id_q = 7, text_q = str ''q?'',
       options = [\<lparr>id_opt = 0, text_opt = str ''x'', isCorrect = True\<rparr>,
                  \<lparr>id_opt = 1, text_opt = str ''y'', isCorrect = False\<rparr>,
                  \<lparr>id_opt = 2, text_opt = str ''z'', isCorrect = False\<rparr>]\<rparr>]"
  by code_simp

subsection \<open>Duplicates\<close>

lemma filter_dedupe:
  "filter (\<lambda>x. id_q x = d) (dedupe seen qs) =
     (if d \<in> seen then [] else take 1 (filter (\<lambda>x. id_q x = d) qs))"
  by (induction qs arbitrary: seen) auto

lemma dedupe_later_duplicate:
  "id_q q \<in> seen \<union> id_q ` set xs \<Longrightarrow> dedupe seen (xs @ q # ys) = dedupe seen (xs @ ys)"
  by (induction xs arbitrary: seen) auto

lemma collectQuestions_append:
  "collectQuestions (xs @ ys) = collectQuestions xs @ collectQuestions ys"
  by (induction xs) (auto split: option.splits)

lemma collectQuestions_member:
  "k < length bs \<Longrightarrow> parseBlock (bs ! k) = Some q \<Longrightarrow> q \<in> set (collectQuestions bs)"
proof (induction bs arbitrary: k)
  case Nil
  then show ?case by simp
next
  case (Cons b bs)
  then show ?case by (cases k) (auto split: option.splits)
qed

lemma first_of_collectQuestions:
  "filter (\<lambda>x. id_q x = d) (collectQuestions bs) = q # rest \<Longrightarrow>
   \<exists>k<length bs. parseBlock (bs ! k) = Some q \<and>
     (\<forall>m<k. \<forall>q'. parseBlock (bs ! m) = Some q' \<longrightarrow> id_q q' \<noteq> d)"
proof (induction bs)
  case Nil
  then show ?case by simp
next
  case (Cons b bs)
  show ?case
  proof (cases "\<exists>q'. parseBlock b = Some q' \<and> id_q q' = d")
    case True
    with Cons.prems have "parseBlock b = Some q" by auto
    then show ?thesis by (intro exI [of _ 0]) simp
  next
    case False
    with Cons.prems have "filter (\<lambda>x. id_q x = d) (collectQuestions bs) = q # rest"
      by (auto split: option.splits)
    from Cons.IH [OF this] obtain k where k: "k < length bs" "parseBlock (bs ! k) = Some q"
      "\<forall>m<k. \<forall>q'. parseBlock (bs ! m) = Some q' \<longrightarrow> id_q q' \<noteq> d" by blast
    have "\<forall>m<Suc k. \<forall>q'. parseBlock ((b # bs) ! m) = Some q' \<longrightarrow> id_q q' \<noteq> d"
    proof (intro allI impI)
      fix m q' assume m: "m < Suc k" "parseBlock ((b # bs) ! m) = Some q'"
      show "id_q q' \<noteq> d"
      proof (cases m)
        case 0
        with m False show ?thesis by auto
      next
        case (Suc m')
        with m k(3) show ?thesis by auto
      qed
    qed
    with k show ?thesis by (intro exI [of _ "Suc k"]) simp
  qed
qed

text \<open>
  C5. When two blocks of a corpus parse to questions with the same id, the result holds
  exactly one question with that id; it is the question of the first block, in parse
  order, that carries the id; and the later block contributes nothing: without it the
  result is the same.
\<close>

theorem parseQuestions_dedup:
  assumes "a < b" and "b < length (blocksOf raw)"
    and "parseBlock (blocksOf raw ! a) = Some qa"
    and "parseBlock (blocksOf raw ! b) = Some qb"
    and "id_q qa = id_q qb"
  shows "(\<exists>q k. filter (\<lambda>x. id_q x = id_q qb) (parseQuestions raw) = [q] \<and> k \<le> a \<and>
            parseBlock (blocksOf raw ! k) = Some q \<and>
            (\<forall>m<k. \<forall>q'. parseBlock (blocksOf raw ! m) = Some q' \<longrightarrow> id_q q' \<noteq> id_q qb)) \<and>
         dedupe {} (collectQuestions (take b (blocksOf raw) @ drop (Suc b) (blocksOf raw))) =
           parseQuestions raw"
proof -
  define bs where "bs = blocksOf raw"
  define d where "d = id_q qb"
  have a: "a < length bs" using assms(1,2) by (simp add: bs_def)
  have "qa \<in> set (collectQuestions bs)"
    using collectQuestions_member [OF a] assms(3) by (simp add: bs_def)
  then have "filter (\<lambda>x. id_q x = d) (collectQuestions bs) \<noteq> []"
    using assms(5) by (auto simp: d_def filter_empty_conv)
  then obtain q rest where qr: "filter (\<lambda>x. id_q x = d) (collectQuestions bs) = q # rest"
    by (cases "filter (\<lambda>x. id_q x = d) (collectQuestions bs)") auto
  from first_of_collectQuestions [OF qr] obtain k where k: "k < length bs"
    "parseBlock (bs ! k) = Some q"
    "\<forall>m<k. \<forall>q'. parseBlock (bs ! m) = Some q' \<longrightarrow> id_q q' \<noteq> d" by blast
  have "k \<le> a"
  proof (rule ccontr)
    assume "\<not> k \<le> a"
    then have "a < k" by simp
    with k(3) assms(3,5) show False by (auto simp: bs_def d_def)
  qed
  moreover have "filter (\<lambda>x. id_q x = d) (parseQuestions raw) = [q]"
    by (simp add: parseQuestions_def questionsOf_def filter_dedupe qr flip: bs_def)
  moreover have "dedupe {} (collectQuestions (take b bs @ drop (Suc b) bs)) = parseQuestions raw"
  proof -
    have split: "bs = take b bs @ bs ! b # drop (Suc b) bs"
      using assms(2) by (simp add: bs_def id_take_nth_drop)
    have "qa \<in> set (collectQuestions (take b bs))"
      using collectQuestions_member [of a "take b bs" qa] assms(1,2,3) by (simp add: bs_def)
    then have "id_q qa \<in> id_q ` set (collectQuestions (take b bs))"
      by (rule imageI)
    then have mem: "id_q qb \<in> {} \<union> id_q ` set (collectQuestions (take b bs))"
      using assms(5) by simp
    have "collectQuestions bs =
        collectQuestions (take b bs) @ qb # collectQuestions (drop (Suc b) bs)"
      using assms(4) by (subst split) (simp add: collectQuestions_append bs_def)
    then show ?thesis
      using dedupe_later_duplicate [OF mem]
      by (simp add: parseQuestions_def questionsOf_def collectQuestions_append flip: bs_def)
  qed
  ultimately show ?thesis using k by (auto simp: bs_def d_def)
qed

theorem parseQuestions_dedup_witness:
  "(0::nat) < 1 \<and> 1 < length (blocksOf duplicateIdCorpus) \<and>
   parseBlock (blocksOf duplicateIdCorpus ! 0) =
     Some \<lparr>id_q = 1, text_q = str ''a'',
       options = [\<lparr>id_opt = 0, text_opt = str ''x'', isCorrect = False\<rparr>,
                  \<lparr>id_opt = 1, text_opt = str ''y'', isCorrect = False\<rparr>,
                  \<lparr>id_opt = 2, text_opt = str ''z'', isCorrect = False\<rparr>]\<rparr> \<and>
   parseBlock (blocksOf duplicateIdCorpus ! 1) =
     Some \<lparr>id_q = 1, text_q = str ''b'',
       options = [\<lparr>id_opt = 0, text_opt = str ''u'', isCorrect = False\<rparr>,
                  \<lparr>id_opt = 1, text_opt = str ''v'', isCorrect = False\<rparr>,
                  \<lparr>id_opt = 2, text_opt = str ''w'', isCorrect = False\<rparr>]\<rparr> \<and>
   parseQuestions duplicateIdCorpus =
     [\<lparr>id_q = 1, text_q = str ''a'',
       options = [\<lparr>id_opt = 0, text_opt = str ''x'', isCorrect = False\<rparr>,
                  \<lparr>id_opt = 1, text_opt = str ''y'', isCorrect = False\<rparr>,
                  \<lparr>id_opt = 2, text_opt = str ''z'', isCorrect = False\<rparr>]\<rparr>] \<and>
   dedupe {} (collectQuestions (take 1 (blocksOf duplicateIdCorpus) @
                                drop (Suc 1) (blocksOf duplicateIdCorpus))) =
     parseQuestions duplicateIdCorpus"
proof -
  let ?qa = "\<lparr>id_q = 1, text_q = str ''a'',
       options = [\<lparr>id_opt = 0, text_opt = str ''x'', isCorrect = False\<rparr>,
                  \<lparr>id_opt = 1, text_opt = str ''y'', isCorrect = False\<rparr>,
                  \<lparr>id_opt = 2, text_opt = str ''z'', isCorrect = False\<rparr>]\<rparr>"
  let ?qb = "\<lparr>id_q = 1, text_q = str ''b'',
       options = [\<lparr>id_opt = 0, text_opt = str ''u'', isCorrect = False\<rparr>,
                  \<lparr>id_opt = 1, text_opt = str ''v'', isCorrect = False\<rparr>,
                  \<lparr>id_opt = 2, text_opt = str ''w'', isCorrect = False\<rparr>]\<rparr>"
  have h1: "(0::nat) < 1" by simp
  have h2: "1 < length (blocksOf duplicateIdCorpus)" by code_simp
  have h3: "parseBlock (blocksOf duplicateIdCorpus ! 0) = Some ?qa" by code_simp
  have h4: "parseBlock (blocksOf duplicateIdCorpus ! 1) = Some ?qb" by code_simp
  have h5: "id_q ?qa = id_q ?qb" by simp
  have pq: "parseQuestions duplicateIdCorpus = [?qa]" by code_simp
  note parseQuestions_dedup [OF h1 h2 h3 h4 h5, THEN conjunct2]
  with h1 h2 h3 h4 pq show ?thesis by blast
qed


section \<open>The session engine\<close>

text \<open>
  C1. After every answer to the current question, its \<^verbatim>\<open>consecutiveCorrect\<close> should be
  0 or its previous value plus 1, with \<^verbatim>\<open>isExcluded\<close> true exactly when the new value
  reaches 5; and in every reachable state the counter should stay within 0 and 5, with an
  excluded record staying excluded until a reset. The program breaks this in two places.
  After load, reset and a new test, question 1 is current without a progress record, and
  a correct answer to it throws instead of setting the counter to 1. And after five
  correct answers to question 1 and a restart, the excluded question is current and can
  be answered again: a correct answer takes its counter to 6, an incorrect one makes the
  record not excluded, with no reset.
\<close>

theorem handleAnswer_mastery_broken:
  "reachable (startTest zeroRandom (\<lambda>i. zeroRandom)
      (handleReset (initialApp [exampleA, exampleB] (\<lambda>i. zeroRandom)))) \<and>
   currentQuestion (startTest zeroRandom (\<lambda>i. zeroRandom)
      (handleReset (initialApp [exampleA, exampleB] (\<lambda>i. zeroRandom)))) = Some exampleA \<and>
   chosenIsCorrect 2 (startTest zeroRandom (\<lambda>i. zeroRandom)
      (handleReset (initialApp [exampleA, exampleB] (\<lambda>i. zeroRandom)))) \<and>
   handleAnswer 2 (startTest zeroRandom (\<lambda>i. zeroRandom)
      (handleReset (initialApp [exampleA, exampleB] (\<lambda>i. zeroRandom)))) = Inl TypeError \<and>
   reachable mastered \<and> progress mastered 1 = Some (recordOf 1 5 True) \<and>
   reachable (restore (\<lambda>i. zeroRandom) mastered) \<and>
   currentQuestion (restore (\<lambda>i. zeroRandom) mastered) = Some exampleA \<and>
   (\<exists>s'. handleAnswer 2 (restore (\<lambda>i. zeroRandom) mastered) = Inr s' \<and> reachable s' \<and>
      progress s' 1 = Some (recordOf 1 6 True)) \<and>
   (\<exists>s'. handleAnswer 0 (restore (\<lambda>i. zeroRandom) mastered) = Inr s' \<and>
      step\<^sup>*\<^sup>* mastered s' \<and> progress s' 1 = Some (recordOf 1 0 False))"
proof -
  let ?d = "\<lambda>i::nat. zeroRandom"
  let ?a = "startTest zeroRandom ?d (handleReset (initialApp [exampleA, exampleB] ?d))"
  have r: "reachable ?a"
    by (intro reachable.started reachable.reset reachable.loaded)
  have e: "?a =
     \<lparr>allQuestions = [exampleA, exampleB],
      session = \<lparr>questionStates = fmempty, currentQuestionId = Some 1\<rparr>,
      stats = \<lparr>totalAnswers = 0, correctAnswers = 0\<rparr>,
      selectedIdx = None, hasAnswered = False, shuffleDraws = ?d\<rparr>"
    unfolding initial_example
    by (simp add: handleReset_def startTest_def advance_def pickNextQuestionId_def
        candidates_def excluded_def rerender_def currentQuestion_def)
  have c: "currentQuestion ?a = Some exampleA"
    unfolding e by (simp add: currentQuestion_def)
  have k: "chosenIsCorrect 2 ?a"
    unfolding e
    by (simp add: chosenIsCorrect_def displayedOptions_def currentQuestion_def
        displayed_example elementAt_def)
  have t: "handleAnswer 2 ?a = Inl TypeError"
    unfolding handleAnswer_throws_iff
    using c k by (simp add: e progress_def)
  have m: "progress mastered 1 = Some (recordOf 1 5 True)"
    by (simp add: progress_def mastered_def)
  have rr: "reachable (restore ?d mastered)"
    by (intro reachable.restarted reachable_mastered)
  have cr: "currentQuestion (restore ?d mastered) = Some exampleA"
    unfolding restore_mastered by (simp add: currentQuestion_def mastered_def)
  from restore_answer_correct obtain s6 where
    s6: "handleAnswer 2 (restore ?d mastered) = Inr s6" "progress s6 1 = Some (recordOf 1 6 True)"
    by blast
  from rr s6(1) have "reachable s6" by (rule reachable.answered)
  with s6 have six: "\<exists>s'. handleAnswer 2 (restore ?d mastered) = Inr s' \<and> reachable s' \<and>
      progress s' 1 = Some (recordOf 1 6 True)" by blast
  from restore_answer obtain s0 where
    s0: "handleAnswer 0 (restore ?d mastered) = Inr s0" "progress s0 1 = Some (recordOf 1 0 False)"
    by blast
  have "step mastered (restore ?d mastered)" by (rule step.step_restart)
  moreover from s0(1) have "step (restore ?d mastered) s0" by (rule step.step_answer)
  ultimately have "step\<^sup>*\<^sup>* mastered s0" by (meson r_into_rtranclp rtranclp_trans)
  with s0 have zero: "\<exists>s'. handleAnswer 0 (restore ?d mastered) = Inr s' \<and>
      step\<^sup>*\<^sup>* mastered s' \<and> progress s' 1 = Some (recordOf 1 0 False)" by blast
  from r c k t reachable_mastered m rr cr six zero show ?thesis by (intro conjI)
qed

text \<open>
  C2. After \<^verbatim>\<open>handleReset\<close> the statistics are zero and no question is current, but
  the progress mapping is empty and nothing creates the records again: the active count
  is 0 whatever the bank, so the session counts as finished, and a correct answer to the
  question picked next throws. Here for the bank of questions 1 and 2, where the count
  after loading is 2.
\<close>

theorem handleReset_activeCount:
  "activeCount (handleReset s) = 0 \<and>
   length (allQuestions (handleReset (practice 1))) = 2 \<and>
   isFinished (handleReset (practice 1)) \<and>
   activeCount (initialApp [exampleA, exampleB] (\<lambda>i. zeroRandom)) = 2 \<and>
   handleAnswer 2 (clickStart zeroRandom (\<lambda>i. zeroRandom) (handleReset (practice 1))) =
     Inl TypeError"
proof -
  have r: "handleReset (practice 1) =
     \<lparr>allQuestions = [exampleA, exampleB],
      session = \<lparr>questionStates = fmempty, currentQuestionId = None\<rparr>,
      stats = \<lparr>totalAnswers = 0, correctAnswers = 0\<rparr>,
      selectedIdx = None, hasAnswered = False, shuffleDraws = (\<lambda>i. zeroRandom)\<rparr>"
    by (simp add: handleReset_def rerender_def practice_def currentQuestion_def)
  have a: "activeCount (handleReset s) = 0"
    by (simp add: handleReset_no_records)
  have f: "isFinished (handleReset (practice 1))"
    by (simp add: isFinished_def handleReset_no_records)
  have l: "length (allQuestions (handleReset (practice 1))) = 2"
    by (simp add: handleReset_no_records practice_def)
  have i: "activeCount (initialApp [exampleA, exampleB] (\<lambda>i. zeroRandom)) = 2"
    unfolding initial_example
    by (simp add: activeCount_def progress_def ffilter_finsert ffilter_fempty recordOf_def
        fcard_finsert_if fcard_fempty)
  have o: "startOffered (handleReset (practice 1))"
    unfolding r by (simp add: startOffered_def falsy_def)
  have s: "clickStart zeroRandom (\<lambda>i. zeroRandom) (handleReset (practice 1)) =
     \<lparr>allQuestions = [exampleA, exampleB],
      session = \<lparr>questionStates = fmempty, currentQuestionId = Some 1\<rparr>,
      stats = \<lparr>totalAnswers = 0, correctAnswers = 0\<rparr>,
      selectedIdx = None, hasAnswered = False, shuffleDraws = (\<lambda>i. zeroRandom)\<rparr>"
  proof -
    have "clickStart zeroRandom (\<lambda>i. zeroRandom) (handleReset (practice 1)) =
        startTest zeroRandom (\<lambda>i. zeroRandom) (handleReset (practice 1))"
      unfolding clickStart_def using o by (rule if_P)
    then show ?thesis
      unfolding r
      by (simp add: startTest_def advance_def pickNextQuestionId_def candidates_def
          excluded_def rerender_def currentQuestion_def)
  qed
  have "handleAnswer 2 (clickStart zeroRandom (\<lambda>i. zeroRandom) (handleReset (practice 1))) =
     Inl TypeError"
    unfolding s handleAnswer_throws_iff
    by (simp add: currentQuestion_def progress_def chosenIsCorrect_def displayedOptions_def
        displayed_example elementAt_def)
  with a f l i show ?thesis by simp
qed

text \<open>
  The claim C4 as stated, with the active pool taken as the bank questions whose record
  has \<^verbatim>\<open>isExcluded = false\<close>, fails for a question without a record: the pool is
  empty and \<^verbatim>\<open>pickNextQuestionId\<close> returns the question's id.
\<close>

theorem pickNextQuestionId_activePool_counterexample:
  "\<not> (pickNextQuestionId [exampleA] fmempty zeroRandom = None \<longleftrightarrow>
       activePool [exampleA] fmempty = [])"
  by (simp add: pickNextQuestionId_def candidates_def excluded_def activePool_def)

text \<open>
  C4, amended. \<^verbatim>\<open>pickNextQuestionId\<close> returns \<^verbatim>\<open>null\<close> exactly when every bank
  question has a record that is excluded; an id it returns is the id of a bank question
  that has no record or whose record is not excluded. When every bank question has a
  record, this is the claim as stated: \<^verbatim>\<open>null\<close> exactly when the active pool is empty,
  and any id returned is in the active pool.
\<close>

theorem pickNextQuestionId_active:
  "(pickNextQuestionId bank states rnd = None \<longleftrightarrow>
      (\<forall>q \<in> set bank. \<exists>ps. fmlookup states (id_q q) = Some ps \<and> isExcluded ps)) \<and>
   (pickNextQuestionId bank states rnd = Some i \<longrightarrow>
      (\<exists>q \<in> set bank. id_q q = i \<and>
         (\<forall>ps. fmlookup states (id_q q) = Some ps \<longrightarrow> \<not> isExcluded ps))) \<and>
   ((\<forall>q \<in> set bank. fmlookup states (id_q q) \<noteq> None) \<longrightarrow>
      (pickNextQuestionId bank states rnd = None \<longleftrightarrow> activePool bank states = []) \<and>
      (pickNextQuestionId bank states rnd = Some i \<longrightarrow> i \<in> id_q ` set (activePool bank states)))"
proof (intro conjI impI)
  show "pickNextQuestionId bank states rnd = None \<longleftrightarrow>
      (\<forall>q \<in> set bank. \<exists>ps. fmlookup states (id_q q) = Some ps \<and> isExcluded ps)"
    by (simp add: pick_None_iff candidates_empty_iff)
next
  assume "pickNextQuestionId bank states rnd = Some i"
  from pick_Some [OF this]
  show "\<exists>q \<in> set bank. id_q q = i \<and>
         (\<forall>ps. fmlookup states (id_q q) = Some ps \<longrightarrow> \<not> isExcluded ps)"
    by (auto simp: candidates_iff)
next
  assume "\<forall>q \<in> set bank. fmlookup states (id_q q) \<noteq> None"
  then show "pickNextQuestionId bank states rnd = None \<longleftrightarrow> activePool bank states = []"
    by (simp add: pick_None_iff candidates_activePool)
next
  assume r: "\<forall>q \<in> set bank. fmlookup states (id_q q) \<noteq> None"
    and "pickNextQuestionId bank states rnd = Some i"
  from pick_Some [OF this(2)]
  show "i \<in> id_q ` set (activePool bank states)"
    by (auto simp: candidates_activePool [OF r])
qed

theorem pickNextQuestionId_active_witness:
  "pickNextQuestionId [exampleA, exampleB] (questionStates (session mastered)) zeroRandom = Some 2 \<and>
   fmlookup (questionStates (session mastered)) (id_q exampleA) \<noteq> None \<and>
   fmlookup (questionStates (session mastered)) (id_q exampleB) \<noteq> None \<and>
   activePool [exampleA, exampleB] (questionStates (session mastered)) = [exampleB] \<and>
   2 \<in> id_q ` set (activePool [exampleA, exampleB] (questionStates (session mastered))) \<and>
   (\<exists>q \<in> set [exampleA, exampleB]. id_q q = 2 \<and>
      (\<forall>ps. fmlookup (questionStates (session mastered)) (id_q q) = Some ps \<longrightarrow>
         \<not> isExcluded ps))"
proof -
  let ?st = "questionStates (session mastered)"
  have st: "?st = fmupd 1 (recordOf 1 5 True) (fmupd 2 (recordOf 2 0 False) fmempty)"
    by (simp add: mastered_def)
  have p: "pickNextQuestionId [exampleA, exampleB] ?st zeroRandom = Some 2"
    unfolding st by (simp add: pickNextQuestionId_def candidates_def excluded_def recordOf_def)
  have r: "\<forall>q \<in> set [exampleA, exampleB]. fmlookup ?st (id_q q) \<noteq> None"
    unfolding st by simp
  have ap: "activePool [exampleA, exampleB] ?st = [exampleB]"
    unfolding st by (simp add: activePool_def recordOf_def)
  note inst = pickNextQuestionId_active [of "[exampleA, exampleB]" ?st zeroRandom 2]
  from inst p have e: "\<exists>q \<in> set [exampleA, exampleB]. id_q q = 2 \<and>
      (\<forall>ps. fmlookup ?st (id_q q) = Some ps \<longrightarrow> \<not> isExcluded ps)"
    by blast
  from inst p r have m: "2 \<in> id_q ` set (activePool [exampleA, exampleB] ?st)"
    by blast
  from p r ap m e show ?thesis by simp
qed

text \<open>
  C7. A call of \<^verbatim>\<open>handleAnswer\<close> that returns leaves \<^verbatim>\<open>currentQuestionId\<close> as it
  was, and leaves the progress record of every question other than the current one as
  it was.
\<close>

theorem handleAnswer_frame:
  "handleAnswer idx s = Inr s' \<Longrightarrow>
   currentQuestionId (session s') = currentQuestionId (session s) \<and>
   (\<forall>k. currentQuestionId (session s) \<noteq> Some k \<longrightarrow> progress s' k = progress s k)"
proof (intro conjI allI impI)
  assume a: "handleAnswer idx s = Inr s'"
  then show "currentQuestionId (session s') = currentQuestionId (session s)"
    by (rule handleAnswer_session)
  fix k assume k: "currentQuestionId (session s) \<noteq> Some k"
  show "progress s' k = progress s k"
  proof (cases "currentQuestion s")
    case None
    with a show ?thesis by (simp add: handleAnswer_noop)
  next
    case (Some q)
    with k have "k \<noteq> id_q q" by (auto dest: currentQuestion_id)
    then show ?thesis by (rule handleAnswer_other [OF a Some])
  qed
qed

theorem handleAnswer_frame_witness:
  "handleAnswer 2 (practice 4) = Inr mastered \<and>
   currentQuestionId (session mastered) = currentQuestionId (session (practice 4)) \<and>
   currentQuestionId (session (practice 4)) \<noteq> Some 2 \<and>
   progress mastered 2 = progress (practice 4) 2 \<and>
   progress mastered 2 = Some (recordOf 2 0 False)"
proof -
  have a: "handleAnswer 2 (practice 4) = Inr mastered"
    by (simp add: answer_practice mastered_def)
  have k: "currentQuestionId (session (practice 4)) \<noteq> Some 2"
    by (simp add: practice_def)
  have m: "progress mastered 2 = Some (recordOf 2 0 False)"
    by (simp add: progress_def mastered_def)
  from handleAnswer_frame [OF a] k m a show ?thesis by simp
qed

text \<open>
  The claim C8 as stated fails for starting: the handler of the start button has no
  guard. Run while question 1 is current, it makes question 2 current; and in the state
  where the last question has just been mastered and is still current, the new-test
  button is rendered, runs the same updater and clears \<^verbatim>\<open>currentQuestionId\<close>.
\<close>

theorem clickStart_counterexample:
  "currentQuestion (practice 0) = Some exampleA \<and>
   currentQuestionId (session (startTest halfRandom (\<lambda>i. zeroRandom) (practice 0))) = Some 2 \<and>
   currentQuestion finished = Some exampleB \<and>
   currentQuestionId (session (clickStart zeroRandom (\<lambda>i. zeroRandom) finished)) = None \<and>
   clickStart zeroRandom (\<lambda>i. zeroRandom) finished \<noteq> finished"
proof -
  have "pickNextQuestionId (allQuestions (practice 0)) (questionStates (session (practice 0)))
      halfRandom = Some 2"
    by (simp add: practice_def pick_half)
  then have h: "currentQuestionId (session (startTest halfRandom (\<lambda>i. zeroRandom) (practice 0))) =
      Some 2"
    by (simp add: startTest_def session_advance)
  have o: "startOffered finished"
    using isFinished_finished by (simp add: startOffered_def) (simp add: finished_def)
  have "pickNextQuestionId (allQuestions finished) (questionStates (session finished)) zeroRandom
      = None"
    by (simp add: pickNextQuestionId_def candidates_def excluded_def finished_def recordOf_def)
  then have n: "currentQuestionId (session (clickStart zeroRandom (\<lambda>i. zeroRandom) finished)) = None"
    using o by (simp add: clickStart_def startTest_def session_advance)
  moreover have "currentQuestionId (session finished) = Some 2"
    by (simp add: finished_def)
  ultimately have "clickStart zeroRandom (\<lambda>i. zeroRandom) finished \<noteq> finished"
    by auto
  with h n currentQuestion_finished show ?thesis by simp
qed

text \<open>
  C8, amended. Answering when the presentation has been answered already or no question
  is current, and advancing when no question is current, leave the whole state as it
  is. The start handler has no guard of its own: it sets \<^verbatim>\<open>currentQuestionId\<close> to a
  fresh pick and leaves the progress records and the statistics as they are. It is
  offered only while its button is rendered: while a question with a non-zero id is
  current and the session is not finished, a start click is not possible and the state
  is unchanged.
\<close>

theorem guards_noop:
  "(hasAnswered s \<or> currentQuestion s = None \<longrightarrow> handleAnswer idx s = Inr s) \<and>
   (currentQuestion s = None \<longrightarrow> handleNext rnd draws s = s) \<and>
   (\<not> falsy (currentQuestionId (session s)) \<and> \<not> isFinished s \<longrightarrow> clickStart rnd draws s = s) \<and>
   questionStates (session (startTest rnd draws s)) = questionStates (session s) \<and>
   stats (startTest rnd draws s) = stats s \<and>
   currentQuestionId (session (startTest rnd draws s)) =
     pickNextQuestionId (allQuestions s) (questionStates (session s)) rnd"
  by (simp add: handleAnswer_noop handleNext_def clickStart_def startOffered_def startTest_def
      session_advance) (simp add: advance_def)

theorem guards_noop_witness:
  "hasAnswered mastered \<and> handleAnswer 0 mastered = Inr mastered \<and>
   \<not> falsy (currentQuestionId (session mastered)) \<and> \<not> isFinished mastered \<and>
   clickStart halfRandom (\<lambda>i. zeroRandom) mastered = mastered \<and>
   currentQuestion (initialApp [exampleA, exampleB] (\<lambda>i. zeroRandom)) = None \<and>
   handleNext zeroRandom (\<lambda>i. zeroRandom) (initialApp [exampleA, exampleB] (\<lambda>i. zeroRandom)) =
     initialApp [exampleA, exampleB] (\<lambda>i. zeroRandom)"
proof -
  have h: "hasAnswered mastered"
    by (simp add: mastered_def)
  have f: "\<not> falsy (currentQuestionId (session mastered))"
    by (simp add: falsy_def mastered_def)
  have "progress mastered 2 = Some (recordOf 2 0 False)"
    by (simp add: progress_def mastered_def)
  moreover have "\<not> isExcluded (recordOf 2 0 False)"
    by (simp add: recordOf_def)
  ultimately have nf: "\<not> isFinished mastered"
    unfolding isFinished_iff by blast
  have c: "currentQuestion (initialApp [exampleA, exampleB] (\<lambda>i. zeroRandom)) = None"
    by (simp add: initial_example currentQuestion_def)
  from guards_noop [of mastered 0 halfRandom "\<lambda>i. zeroRandom"]
    guards_noop [of "initialApp [exampleA, exampleB] (\<lambda>i. zeroRandom)" 0 zeroRandom
      "\<lambda>i. zeroRandom"] h f nf c
  show ?thesis by simp
qed

text \<open>
  C9. When no option of the current question is correct, \<^verbatim>\<open>handleAnswer\<close> returns for
  every index, in or out of range: the answer is scored incorrect,
  \<^verbatim>\<open>correctAnswers\<close> is unchanged, and, if the presentation had not been answered
  yet, \<^verbatim>\<open>totalAnswers\<close> grows by 1 and the question's \<^verbatim>\<open>consecutiveCorrect\<close> is
  0 afterwards.
\<close>

theorem handleAnswer_no_correct_option:
  assumes "currentQuestion s = Some q" and "\<forall>x \<in> set (options q). \<not> isCorrect x"
  shows "\<not> chosenIsCorrect idx s \<and>
    (\<exists>s'. handleAnswer idx s = Inr s' \<and>
       correctAnswers (stats s') = correctAnswers (stats s) \<and>
       (\<not> hasAnswered s \<longrightarrow>
          totalAnswers (stats s') = totalAnswers (stats s) + 1 \<and>
          (\<exists>ps. progress s' (id_q q) = Some ps \<and> consecutiveCorrect ps = 0 \<and>
             \<not> isExcluded ps)))"
proof -
  have c: "\<not> chosenIsCorrect idx s"
    using chosenIsCorrect_option [of idx s q] assms by blast
  show ?thesis
  proof (cases "hasAnswered s")
    case True
    with c show ?thesis by (simp add: handleAnswer_noop)
  next
    case False
    show ?thesis
    proof (cases "progress s (id_q q)")
      case None
      show ?thesis
        using c False
        by (simp add: handleAnswer_missing [OF False assms(1) None] progress_def)
    next
      case (Some qs)
      show ?thesis
        using c False
        by (simp add: handleAnswer_record [OF False assms(1) Some] progress_def)
    qed
  qed
qed

theorem handleAnswer_no_correct_option_witness:
  "currentQuestion shownC = Some exampleC \<and>
   map isCorrect (options exampleC) = [False, False, False] \<and>
   \<not> hasAnswered shownC \<and> \<not> chosenIsCorrect 7 shownC \<and>
   (\<exists>s'. handleAnswer 7 shownC = Inr s' \<and>
      correctAnswers (stats s') = correctAnswers (stats shownC) \<and>
      totalAnswers (stats s') = totalAnswers (stats shownC) + 1 \<and>
      (\<exists>ps. progress s' (id_q exampleC) = Some ps \<and> consecutiveCorrect ps = 0 \<and>
         \<not> isExcluded ps))"
proof -
  have c: "currentQuestion shownC = Some exampleC"
    by (simp add: currentQuestion_def shownC_def exampleC_def)
  have o: "map isCorrect (options exampleC) = [False, False, False]"
    by (simp add: exampleC_def)
  have b: "\<forall>x \<in> set (options exampleC). \<not> isCorrect x"
    by (simp add: exampleC_def)
  have h: "\<not> hasAnswered shownC"
    by (simp add: shownC_def)
  from handleAnswer_no_correct_option [OF c b, of 7] c o h show ?thesis
    by simp
qed

text \<open>
  C10. A bank question without a progress record is a candidate of
  \<^verbatim>\<open>pickNextQuestionId\<close>, which then returns an id. For a non-empty bank and the empty
  progress mapping it returns the id of a bank question, never \<^verbatim>\<open>null\<close>; the empty
  mapping is what \<^verbatim>\<open>handleReset\<close> leaves, so a start after a reset makes a bank question
  current.
\<close>

theorem pickNextQuestionId_missing_record:
  "(q \<in> set questions \<and> fmlookup states (id_q q) = None \<longrightarrow>
      q \<in> set (candidates questions states) \<and>
      (\<exists>i. pickNextQuestionId questions states rnd = Some i)) \<and>
   (questions \<noteq> [] \<longrightarrow>
      (\<exists>q' \<in> set questions. pickNextQuestionId questions fmempty rnd = Some (id_q q'))) \<and>
   questionStates (session (handleReset s)) = fmempty \<and>
   (allQuestions s \<noteq> [] \<longrightarrow>
      (\<exists>q' \<in> set (allQuestions s).
         currentQuestionId (session (startTest rnd draws (handleReset s))) = Some (id_q q')))"
proof -
  have empty: "\<exists>q' \<in> set qs. pickNextQuestionId qs fmempty rnd = Some (id_q q')"
    if "qs \<noteq> []" for qs
  proof -
    from that have "candidates qs fmempty \<noteq> []"
      by (cases qs) (simp_all add: candidates_def excluded_def)
    then obtain i where i: "pickNextQuestionId qs fmempty rnd = Some i"
      by (cases "pickNextQuestionId qs fmempty rnd") (auto simp: pick_None_iff)
    from pick_Some [OF this] i show ?thesis
      by (auto simp: candidates_iff)
  qed
  have "q \<in> set (candidates questions states) \<and>
      (\<exists>i. pickNextQuestionId questions states rnd = Some i)"
    if "q \<in> set questions \<and> fmlookup states (id_q q) = None"
  proof -
    from that have c: "q \<in> set (candidates questions states)"
      by (simp add: candidates_iff)
    then have "candidates questions states \<noteq> []" by auto
    with c show ?thesis
      by (cases "pickNextQuestionId questions states rnd") (auto simp: pick_None_iff)
  qed
  moreover have "allQuestions (handleReset s) = allQuestions s"
    by (simp add: handleReset_def)
  ultimately show ?thesis
    using empty [of questions] empty [of "allQuestions s"]
    by (simp add: startTest_def session_advance handleReset_session)
qed

theorem pickNextQuestionId_missing_record_witness:
  "exampleA \<in> set [exampleA, exampleB] \<and> fmlookup fmempty (id_q exampleA) = None \<and>
   exampleA \<in> set (candidates [exampleA, exampleB] fmempty) \<and>
   pickNextQuestionId [exampleA, exampleB] fmempty halfRandom = Some 2 \<and>
   allQuestions mastered = [exampleA, exampleB] \<and>
   questionStates (session (handleReset mastered)) = fmempty \<and>
   (\<exists>q' \<in> set (allQuestions mastered).
      currentQuestionId (session (startTest halfRandom (\<lambda>i. zeroRandom) (handleReset mastered))) =
        Some (id_q q'))"
proof -
  have a: "exampleA \<in> set [exampleA, exampleB]" by simp
  have n: "fmlookup fmempty (id_q exampleA) = None" by simp
  have p: "pickNextQuestionId [exampleA, exampleB] fmempty halfRandom = Some 2"
    by (simp add: pickNextQuestionId_def candidates_def excluded_def)
  have q: "allQuestions mastered = [exampleA, exampleB]"
    by (simp add: mastered_def)
  note inst = pickNextQuestionId_missing_record [of exampleA "[exampleA, exampleB]" fmempty
      halfRandom mastered "\<lambda>i. zeroRandom"]
  from inst a n have c: "exampleA \<in> set (candidates [exampleA, exampleB] fmempty)"
    by blast
  from inst q have "\<exists>q' \<in> set (allQuestions mastered).
      currentQuestionId (session (startTest halfRandom (\<lambda>i. zeroRandom) (handleReset mastered))) =
        Some (id_q q')"
    by simp
  with inst a n c p q show ?thesis by simp
qed

end
